theory Spec2Isabelle
  imports Complex_Main "HOL-Library.Sublist" "HOL-Library.Multiset" "HOL-Library.Log_Nat"
begin

section \<open>The heuristic scoring engine of lib/analyzeFallback.ts\<close>

text \<open>
  The transcript handed to \<open>analyzeTranscriptFallback\<close> is a JavaScript string. It is
  modelled as a HOL \<open>string\<close>, every \<open>char\<close> being one UTF-16 code unit in the range
  U+0000 .. U+00FF (ASCII and Latin-1); on this alphabet \<open>trim\<close>, \<open>toLowerCase\<close>, the
  regular-expression classes \<open>\s\<close>, \<open>\w\<close>, \<open>\b\<close> and the case folding of the \<open>i\<close> flag
  are written out in full below. Text the engine produces contains Hangul and an arrow, so it
  is a list of UTF-16 code units (\<open>ustring\<close>); \<open>u\<close> embeds transcript text into it.

  JavaScript numbers are IEEE 754 doubles. A finite double is a rational number, and the
  model keeps it as the \<open>rat\<close> it denotes; every arithmetic operation of the source is the
  exact operation followed by the rounding \<open>double\<close> to the nearest double, in the order in
  which the source's expression is evaluated.
\<close>

subsection \<open>Characters and strings\<close>

type_synonym ustring = "nat list"

definition u :: "string \<Rightarrow> ustring" where
  "u s = map of_char s"

definition codeUnit :: "char \<Rightarrow> nat" where
  "codeUnit c = of_char c"

text \<open>White space of \<open>String.prototype.trim\<close> and of the class \<open>\s\<close>, below U+0100:
  TAB, LF, VT, FF, CR, SPACE and NO-BREAK SPACE.\<close>

definition isWhiteSpace :: "char \<Rightarrow> bool" where
  "isWhiteSpace c = (codeUnit c \<in> {9, 10, 11, 12, 13, 32, 160})"

text \<open>The class \<open>\w\<close> (no \<open>u\<close> flag): \<open>[A-Za-z0-9_]\<close>.\<close>

definition isWordChar :: "char \<Rightarrow> bool" where
  "isWordChar c =
     (let n = codeUnit c
      in (48 \<le> n \<and> n \<le> 57) \<or> (65 \<le> n \<and> n \<le> 90) \<or> n = 95 \<or> (97 \<le> n \<and> n \<le> 122))"

text \<open>\<open>toLowerCase\<close> below U+0100: A-Z and the capital letters U+00C0 .. U+00DE
  (the multiplication sign U+00D7 apart) move up by 32; nothing else changes.\<close>

definition lowerChar :: "char \<Rightarrow> char" where
  "lowerChar c =
     (let n = codeUnit c
      in if (65 \<le> n \<and> n \<le> 90) \<or> (192 \<le> n \<and> n \<le> 222 \<and> n \<noteq> 215)
         then char_of (n + 32) else c)"

definition toLowerCase :: "string \<Rightarrow> string" where
  "toLowerCase s = map lowerChar s"

text \<open>Case folding of the \<open>i\<close> flag (ECMAScript's Canonicalize, no \<open>u\<close> flag): the upper-case
  code unit of a character, when it is a single unit and does not take a non-ASCII character
  into ASCII. The result can leave Latin-1 (U+00B5 and U+00FF), so it is a number.\<close>

definition canonicalize :: "char \<Rightarrow> nat" where
  "canonicalize c =
     (let n = codeUnit c
      in if (97 \<le> n \<and> n \<le> 122) \<or> (224 \<le> n \<and> n \<le> 254 \<and> n \<noteq> 247) then n - 32
         else if n = 255 then 376
         else if n = 181 then 924
         else n)"

definition trim :: "string \<Rightarrow> string" where
  "trim s = rev (dropWhile isWhiteSpace (rev (dropWhile isWhiteSpace s)))"

text \<open>\<open>String.prototype.includes\<close>: the argument occurs as a contiguous run.\<close>

fun includesStr :: "string \<Rightarrow> string \<Rightarrow> bool" where
  "includesStr [] k = (k = [])"
| "includesStr (c # cs) k = (prefix k (c # cs) \<or> includesStr cs k)"

text \<open>\<open>Array.prototype.join\<close>.\<close>

fun joinWith :: "'a list \<Rightarrow> 'a list list \<Rightarrow> 'a list" where
  "joinWith sep [] = []"
| "joinWith sep [x] = x"
| "joinWith sep (x # y # ys) = x @ sep @ joinWith sep (y # ys)"

text \<open>\<open>s.split(/\s+/)\<close>: the pieces between the maximal runs of white space; a run at the
  start or at the end leaves an empty piece there, and the empty string gives one empty piece.\<close>

function splitWhiteSpace :: "string \<Rightarrow> string list" where
  "splitWhiteSpace [] = [[]]"
| "splitWhiteSpace (c # cs) =
     (if isWhiteSpace c then [] # splitWhiteSpace (dropWhile isWhiteSpace cs)
      else (case splitWhiteSpace cs of
              [] \<Rightarrow> [[c]]
            | w # ws \<Rightarrow> (c # w) # ws))"
  by pat_completeness auto
termination
  by (relation "measure length") (auto simp: less_Suc_eq_le length_dropWhile_le)

text \<open>\<open>s.split(/(?<=[.!?])\s+/)\<close>: a separator is a maximal run of white space whose first
  character comes right after a full stop, an exclamation mark or a question mark. The flag
  says whether the character before the rest is such a terminator.\<close>

definition isTerminator :: "char \<Rightarrow> bool" where
  "isTerminator c = (c = CHR ''.'' \<or> c = CHR ''!'' \<or> c = CHR ''?'')"

function splitSentences :: "bool \<Rightarrow> string \<Rightarrow> string list" where
  "splitSentences afterTerminator [] = [[]]"
| "splitSentences afterTerminator (c # cs) =
     (if afterTerminator \<and> isWhiteSpace c
      then [] # splitSentences False (dropWhile isWhiteSpace cs)
      else (case splitSentences (isTerminator c) cs of
              [] \<Rightarrow> [[c]]
            | w # ws \<Rightarrow> (c # w) # ws))"
  by pat_completeness auto
termination
  by (relation "measure (\<lambda>(t, s). length s)") (auto simp: less_Suc_eq_le length_dropWhile_le)

subsection \<open>Doubles\<close>

text \<open>The rounding of IEEE 754 binary64 arithmetic, round to nearest, ties to even: a positive
  \<open>x\<close> with \<open>2^e \<le> x < 2^(e + 1)\<close> is rounded to a multiple of \<open>2^(e - 52)\<close> (53 significant
  bits), below \<open>2^(- 1022)\<close> to a multiple of \<open>2^(- 1074)\<close> (the subnormal numbers); at a tie
  the multiple with the even factor is taken. Overflow is left out: the operands of the engine
  are lengths of strings and arrays, below \<open>2^53\<close>, and the constants of the formulas, so no
  result comes near \<open>2^1024\<close>.\<close>

definition roundTiesEven :: "rat \<Rightarrow> int" where
  "roundTiesEven y =
     (let f = \<lfloor>y\<rfloor>; d = y - rat_of_int f
      in if d < 1 / 2 then f else if 1 / 2 < d then f + 1 else if even f then f else f + 1)"

text \<open>The number of bits of a positive integer.\<close>

function bitLength :: "int \<Rightarrow> int" where
  "bitLength n = (if n \<le> 0 then 0 else 1 + bitLength (n div 2))"
  by pat_completeness auto
termination
  by (relation "measure nat") auto

declare bitLength.simps [simp del]

text \<open>The exponent \<open>e\<close> with \<open>2^e \<le> x < 2^(e + 1)\<close>, for a positive \<open>x\<close>: the difference of the
  bit lengths of numerator and denominator, or one less.\<close>

definition binade :: "rat \<Rightarrow> int" where
  "binade x =
     (let (a, b) = quotient_of x;
          e = bitLength a - bitLength b
      in if power_int 2 e \<le> x then e else e - 1)"

definition double :: "rat \<Rightarrow> rat" where
  "double x =
     (if x = 0 then 0
      else let quantum = power_int 2 (max (binade \<bar>x\<bar>) (- 1022) - 52)
           in rat_of_int (roundTiesEven (x / quantum)) * quantum)"

subsection \<open>Numbers and their text\<close>

text \<open>\<open>Math.round\<close> of a double: the nearest integer, a tie going up. The argument is the
  number the double denotes.\<close>

definition mathRound :: "rat \<Rightarrow> int" where
  "mathRound x = \<lfloor>x + 1 / 2\<rfloor>"

definition digitChar :: "nat \<Rightarrow> char" where
  "digitChar d = char_of (48 + d)"

function showNat :: "nat \<Rightarrow> string" where
  "showNat n = (if n < 10 then [digitChar n] else showNat (n div 10) @ [digitChar (n mod 10)])"
  by pat_completeness auto
termination
  by (relation "measure id") auto

declare showNat.simps [simp del]

definition showInt :: "int \<Rightarrow> string" where
  "showInt i = (if i < 0 then CHR ''-'' # showNat (nat (- i)) else showNat (nat i))"

text \<open>\<open>x.toFixed(1)\<close> of a double \<open>x\<close>: the integer \<open>n\<close> for which \<open>n / 10\<close> is nearest to the
  number \<open>x\<close> denotes (the larger one at a tie), written with a point before its last digit; a
  negative \<open>x\<close> is written as \<open>-\<close> and the text of \<open>- x\<close>. The engine applies it to the double
  that the product of a density and 100 gives, never to the exact product.
  (The branch for \<open>x \<ge> 10^21\<close> is left out.)\<close>

definition toFixed1 :: "rat \<Rightarrow> string" where
  "toFixed1 x =
     (let a = \<bar>x\<bar>;
          n = nat \<lfloor>a * 10 + 1 / 2\<rfloor>;
          body = showNat (n div 10) @ ''.'' @ [digitChar (n mod 10)]
      in if x < 0 then CHR ''-'' # body else body)"

text \<open>\<open>n.toLocaleString()\<close>, called without an argument, formats in the default locale of the
  host, which the engine neither sets nor reads: the host's formatting of a non-negative
  integer is a parameter of the analysis, of the type \<open>NumberFormat\<close>. One host, for
  reference: with the default locale en-US (or ko-KR) the digits come in groups of three
  separated by commas (\<open>enUSFormat\<close>); a host with the default locale de-DE separates the
  groups by full stops.\<close>

type_synonym NumberFormat = "nat \<Rightarrow> ustring"

definition pad3 :: "nat \<Rightarrow> string" where
  "pad3 n = [digitChar (n div 100), digitChar (n div 10 mod 10), digitChar (n mod 10)]"

function grouped :: "string \<Rightarrow> nat \<Rightarrow> string" where
  "grouped separator n =
     (if n < 1000 then showNat n
      else grouped separator (n div 1000) @ separator @ pad3 (n mod 1000))"
  by pat_completeness auto
termination
  by (relation "measure snd") auto

declare grouped.simps [simp del]

definition enUSFormat :: NumberFormat where
  "enUSFormat n = u (grouped '','' n)"

subsection \<open>Result types\<close>

text \<open>The interfaces \<open>CueInsight\<close>, \<open>MetricInsight\<close>, \<open>EvidenceInsight\<close> and
  \<open>AnalysisResult\<close>. The fields \<open>label\<close> and \<open>value\<close> occur in two interfaces and carry the
  interface's name here.\<close>

datatype CueRisk = Baseline | Elevated | Critical

record CueInsight =
  cue_label :: ustring
  cue_value :: ustring
  risk :: CueRisk
  detail :: ustring

record MetricInsight =
  metric_label :: ustring
  metric_value :: ustring
  hint :: ustring

record EvidenceInsight =
  quote :: ustring
  rationale :: ustring

record AnalysisResult =
  lieProbability :: int
  confidenceScore :: int
  summary :: ustring
  cues :: "CueInsight list"
  metrics :: "MetricInsight list"
  evidence :: "EvidenceInsight list"

text \<open>The interface \<open>FallbackCopy\<close> with its two nested objects. The keyword signals handed
  to the detail templates are transcript text.\<close>

record MetricsCopy =
  wordCountLabel :: ustring
  wordCountHint :: ustring
  coverageLabel :: ustring
  coverageHint :: ustring
  negationMetricLabel :: ustring
  negationHint :: ustring

record EvidenceCopy =
  noDataQuote :: ustring
  noDataDetail :: ustring
  hedgePrefix :: ustring
  pressurePrefix :: ustring
  defaultDetail :: ustring

record FallbackCopy =
  summaryCopy :: "rat \<Rightarrow> rat \<Rightarrow> int \<Rightarrow> ustring"
  hedgingLabel :: ustring
  hedgingDetail :: "string list \<Rightarrow> ustring"
  hedgingDetailNone :: ustring
  pressureLabel :: ustring
  pressureDetail :: "string list \<Rightarrow> ustring"
  pressureDetailNone :: ustring
  negationLabel :: ustring
  negationDetail :: ustring
  conflictLabel :: ustring
  conflictDetail :: ustring
  metricsCopy :: MetricsCopy
  evidenceCopy :: EvidenceCopy

subsection \<open>Keyword tables\<close>

definition hedgingKeywords :: "string list" where
  "hedgingKeywords =
     [''maybe'', ''perhaps'', ''possibly'', ''might'', ''guess'', ''around'', ''roughly'',
      ''seems'', ''kind of'', ''sort of'', ''probably'', ''i think'', ''i believe'',
      ''could be'']"

definition pressureKeywords :: "string list" where
  "pressureKeywords =
     [''honestly'', ''trust me'', ''believe me'', ''truth'', ''swear'', ''definitely'',
      ''absolutely'', ''never'', ''always'', ''promise'', ''100%'']"

definition contradictionJoiners :: "string list" where
  "contradictionJoiners = [''but'', ''however'', ''yet'', ''though'', ''nevertheless'']"

definition negationKeywords :: "string list" where
  "negationKeywords = [''not'', ''didn't'', ''don't'', ''no'', ''never'']"

subsection \<open>The copy of the two locales\<close>

text \<open>\<open>Locale\<close> is the union type \<open>'ko' | 'en'\<close>. TypeScript's types are erased at run time,
  and the engine itself provides for a tag outside the union (the \<open>??\<close> of
  \<open>analyzeTranscriptFallback\<close>): \<open>OtherTag\<close> stands for any run-time value that is no property
  of \<open>fallbackDictionary\<close>, for which the lookup gives \<open>undefined\<close>.\<close>

datatype Locale = KO | EN | OtherTag

definition koCopy :: FallbackCopy where
  "koCopy =
     \<lparr>summaryCopy = (\<lambda>hedgingDensity pressureDensity lieProbability.
         [0x0052, 0x006F, 0x0042, 0x0045, 0x0052, 0x0054, 0x0061, 0x002D, 0x004C, 0x0049,
          0x0041, 0x0052, 0x0020, 0xB85C, 0xCEEC, 0x0020, 0xC559, 0xC0C1, 0xBE14, 0x0020,
          0xACB0, 0xACFC, 0x003A, 0x0020, 0xD5E4, 0xC9D5, 0x0020]
         @ u (toFixed1 (double (hedgingDensity * 100)))
         @ [0x0025, 0x002C, 0x0020, 0xC555, 0xBC15, 0x0020]
         @ u (toFixed1 (double (pressureDensity * 100)))
         @ [0x0025, 0x0020, 0x2192, 0x0020, 0xCD94, 0xC815, 0x0020, 0xC704, 0xD5D8, 0xB3C4,
          0x0020]
         @ u (showInt lieProbability)
         @ u ''%.''),
      hedgingLabel =
         [0xD5E4, 0xC9D5, 0x0020, 0xBC00, 0xB3C4],
      hedgingDetail = (\<lambda>signals.
         [0xBD88, 0xD655, 0xC2E4, 0xC131, 0x0020, 0xC9C0, 0xD45C, 0x0020, 0xD0D0, 0xC9C0,
          0x003A, 0x0020]
         @ u (joinWith '', '' signals)),
      hedgingDetailNone =
         [0xB69C, 0xB837, 0xD55C, 0x0020, 0xD5E4, 0xC9D5, 0x0020, 0xD45C, 0xD604, 0xC740,
          0x0020, 0xC5C6, 0xC73C, 0xBA70, 0x0020, 0xB2E4, 0xB978, 0x0020, 0xC9C0, 0xD45C,
          0xAC00, 0x0020, 0xC704, 0xD5D8, 0xB3C4, 0xB97C, 0x0020, 0xAD6C, 0xC131, 0xD569,
          0xB2C8, 0xB2E4, 0x002E],
      pressureLabel =
         [0xC555, 0xBC15, 0x0020, 0xC5B8, 0xC5B4],
      pressureDetail = (\<lambda>signals.
         [0xBCF4, 0xC99D, 0xC131, 0x0020, 0xC5B4, 0xD718, 0x0020, 0xAD00, 0xCE21, 0x003A,
          0x0020]
         @ u (joinWith '', '' signals)),
      pressureDetailNone =
         [0xC9C1, 0xC811, 0xC801, 0xC778, 0x0020, 0xC555, 0xBC15, 0x0020, 0xC5B8, 0xC5B4,
          0xB294, 0x0020, 0xB0AE, 0xC740, 0x0020, 0xC218, 0xC900, 0xC73C, 0xB85C, 0x0020,
          0xAD00, 0xCE21, 0xB429, 0xB2C8, 0xB2E4, 0x002E],
      negationLabel =
         [0xBD80, 0xC815, 0x0020, 0xC9C4, 0xC220, 0x0020, 0xBE48, 0xB3C4],
      negationDetail =
         [0xC5F0, 0xC18D, 0xB41C, 0x0020, 0xBD80, 0xC815, 0x0020, 0xC9C4, 0xC220, 0xC740,
          0x0020, 0xBC29, 0xC5B4, 0xC801, 0x0020, 0xC9C4, 0xC220, 0x0020, 0xD328, 0xD134,
          0xACFC, 0x0020, 0xC0C1, 0xAD00, 0x0020, 0xAD00, 0xACC4, 0xAC00, 0x0020, 0xC788,
          0xC2B5, 0xB2C8, 0xB2E4, 0x002E],
      conflictLabel =
         [0xC0C1, 0xCDA9, 0x0020, 0xAD6C, 0xBB38],
      conflictDetail =
         [0xC0C1, 0xBC18, 0xB41C, 0x0020, 0xC11C, 0xC220, 0xC774, 0x0020, 0xC5F0, 0xC18D,
          0xC801, 0xC73C, 0xB85C, 0x0020, 0xB4F1, 0xC7A5, 0xD574, 0x0020, 0xB9E5, 0xB77D,
          0x0020, 0xBCC0, 0xB3D9, 0xC131, 0xC774, 0x0020, 0xC0C1, 0xC2B9, 0xD588, 0xC2B5,
          0xB2C8, 0xB2E4, 0x002E],
      metricsCopy =
       \<lparr>wordCountLabel =
         [0xB2E8, 0xC5B4, 0x0020, 0xC218],
        wordCountHint =
         [0xC0D8, 0xD50C, 0x0020, 0xBD84, 0xB7C9, 0xC740, 0x0020, 0xC810, 0xC218, 0x0020,
          0xC548, 0xC815, 0xC131, 0xC5D0, 0x0020, 0xC9C1, 0xC811, 0x0020, 0xC601, 0xD5A5,
          0xC744, 0x0020, 0xC90D, 0xB2C8, 0xB2E4, 0x002E],
        coverageLabel =
         [0xBB38, 0xC7A5, 0x0020, 0xD50C, 0xB798, 0xADF8, 0x0020, 0xBE44, 0xC728],
        coverageHint =
         [0xC704, 0xD5D8, 0x0020, 0xC9C0, 0xD45C, 0xC5D0, 0x0020, 0xBC18, 0xC751, 0xD55C,
          0x0020, 0xBB38, 0xC7A5, 0xC758, 0x0020, 0xBE44, 0xC728, 0xC785, 0xB2C8, 0xB2E4,
          0x002E],
        negationMetricLabel =
         [0xBD80, 0xC815, 0x0020, 0xBE48, 0xB3C4],
        negationHint =
         [0xC9D1, 0xC911, 0xB41C, 0x0020, 0xBD80, 0xC815, 0x0020, 0xC9C4, 0xC220, 0xC740,
          0x0020, 0xB0B4, 0xB7EC, 0xD2F0, 0xBE0C, 0x0020, 0xC870, 0xC815, 0x0020, 0xC804,
          0xC870, 0xC77C, 0x0020, 0xC218, 0x0020, 0xC788, 0xC2B5, 0xB2C8, 0xB2E4, 0x002E]\<rparr>,
      evidenceCopy =
       \<lparr>noDataQuote =
         [0xC99D, 0xAC70, 0x0020, 0xC778, 0xC6A9, 0xC744, 0x0020, 0xC0DD, 0xC131, 0xD558,
          0xAE30, 0xC5D0, 0x0020, 0xCDA9, 0xBD84, 0xD55C, 0x0020, 0xBB38, 0xC7A5, 0xC774,
          0x0020, 0xC5C6, 0xC2B5, 0xB2C8, 0xB2E4, 0x002E],
        noDataDetail =
         [0xCD94, 0xAC00, 0x0020, 0xBC1C, 0xD654, 0xB97C, 0x0020, 0xD655, 0xBCF4, 0xD55C,
          0x0020, 0xB4A4, 0x0020, 0xC7AC, 0xBD84, 0xC11D, 0xD558, 0xB294, 0x0020, 0xAC83,
          0xC774, 0x0020, 0xC88B, 0xC2B5, 0xB2C8, 0xB2E4, 0x002E],
        hedgePrefix =
         [0xD5E4, 0xC9D5, 0x0020, 0xC9C0, 0xD45C],
        pressurePrefix =
         [0xC555, 0xBC15, 0x0020, 0xC9C0, 0xD45C],
        defaultDetail =
         [0xD734, 0xB9AC, 0xC2A4, 0xD2F1, 0x0020, 0xC810, 0xC218, 0xAC00, 0x0020, 0xB192,
          0xC740, 0x0020, 0xBB38, 0xC7A5, 0x002E]\<rparr>\<rparr>"

definition enCopy :: FallbackCopy where
  "enCopy =
     \<lparr>summaryCopy = (\<lambda>hedgingDensity pressureDensity lieProbability.
         u ''RoBERTa-LIAR offline ensemble: hedging ''
         @ u (toFixed1 (double (hedgingDensity * 100)))
         @ u ''%, pressure ''
         @ u (toFixed1 (double (pressureDensity * 100)))
         @ u ''% '' @ [0x2192] @ u '' deception score ''
         @ u (showInt lieProbability)
         @ u ''%.''),
      hedgingLabel =
         u ''Hedging Density'',
      hedgingDetail = (\<lambda>signals.
         u ''Uncertainty markers detected: ''
         @ u (joinWith '', '' signals)),
      hedgingDetailNone =
         u ''Minimal hedging observed; other cues drive the score.'',
      pressureLabel =
         u ''Pressure Language'',
      pressureDetail = (\<lambda>signals.
         u ''Reassurance pressure phrases: ''
         @ u (joinWith '', '' signals)),
      pressureDetailNone =
         u ''Low use of reassurance language detected.'',
      negationLabel =
         u ''Negation Burst'',
      negationDetail =
         u ''Frequent denials correlate with defensive narrative posture.'',
      conflictLabel =
         u ''Conflicting Clauses'',
      conflictDetail =
         u ''Sequential reversals flagged for contextual volatility.'',
      metricsCopy =
       \<lparr>wordCountLabel =
         u ''Word Count'',
        wordCountHint =
         u ''Sample volume directly impacts scoring stability.'',
        coverageLabel =
         u ''Sentence Coverage'',
        coverageHint =
         u ''Share of the transcript triggering risk markers.'',
        negationMetricLabel =
         u ''Negation Frequency'',
        negationHint =
         u ''Dense denial clusters often precede narrative adjustments.''\<rparr>,
      evidenceCopy =
       \<lparr>noDataQuote =
         u ''Not enough material to generate defensible evidence quotes.'',
        noDataDetail =
         u ''Gather more utterances and rerun the profiler.'',
        hedgePrefix =
         u ''Hedge cue'',
        pressurePrefix =
         u ''Pressure cue'',
        defaultDetail =
         u ''High scoring sentence from heuristic engine.''\<rparr>\<rparr>"

definition fallbackDictionary :: "Locale \<Rightarrow> FallbackCopy option" where
  "fallbackDictionary locale =
     (case locale of KO \<Rightarrow> Some koCopy | EN \<Rightarrow> Some enCopy | OtherTag \<Rightarrow> None)"

subsection \<open>Keyword matching\<close>

text \<open>\<open>escapeRegExp\<close> makes every character of a keyword match literally, so the pattern
  \<open>\bkeyword\b\<close> with the flags \<open>gi\<close> is: a word boundary, the keyword's characters up to case,
  a word boundary. \<open>prevWord\<close> says whether the character before the position is a word
  character (false at the start of the text).\<close>

definition wordBoundary :: "bool \<Rightarrow> string \<Rightarrow> bool" where
  "wordBoundary prevWord rest =
     (prevWord \<noteq> (case rest of [] \<Rightarrow> False | c # _ \<Rightarrow> isWordChar c))"

fun literalIgnoreCase :: "string \<Rightarrow> string \<Rightarrow> bool" where
  "literalIgnoreCase [] s = True"
| "literalIgnoreCase (k # ks) [] = False"
| "literalIgnoreCase (k # ks) (c # cs) =
     (canonicalize k = canonicalize c \<and> literalIgnoreCase ks cs)"

definition lastIsWord :: "bool \<Rightarrow> string \<Rightarrow> bool" where
  "lastIsWord prevWord consumed = (if consumed = [] then prevWord else isWordChar (last consumed))"

definition matchesAt :: "bool \<Rightarrow> string \<Rightarrow> string \<Rightarrow> bool" where
  "matchesAt prevWord keyword s =
     (wordBoundary prevWord s \<and> literalIgnoreCase keyword s \<and>
      wordBoundary (lastIsWord prevWord (take (length keyword) s)) (drop (length keyword) s))"

text \<open>\<open>text.match(pattern)\<close> with the \<open>g\<close> flag: the matches found from left to right, the
  search going on behind each match (one character further after an empty match). Only their
  number is used.\<close>

function countMatches :: "bool \<Rightarrow> string \<Rightarrow> string \<Rightarrow> nat" where
  "countMatches prevWord keyword [] = (if matchesAt prevWord keyword [] then 1 else 0)"
| "countMatches prevWord keyword (c # cs) =
     (if matchesAt prevWord keyword (c # cs)
      then 1 + countMatches (isWordChar (last (c # take (length keyword - 1) cs))) keyword
                 (drop (length keyword - 1) cs)
      else countMatches (isWordChar c) keyword cs)"
  by pat_completeness auto
termination
  by (relation "measure (\<lambda>(p, k, s). length s)") auto

definition keywordMatchCount :: "string \<Rightarrow> string \<Rightarrow> nat" where
  "keywordMatchCount text keyword = countMatches False keyword text"

definition countKeywordHits :: "string \<Rightarrow> string list \<Rightarrow> nat" where
  "countKeywordHits text keywords =
     foldl (\<lambda>total keyword. total + keywordMatchCount text keyword) 0 keywords"

text \<open>\<open>Array.prototype.sort\<close> is stable; with the comparator \<open>(a, b) => b.count - a.count\<close>
  it orders by falling count. \<open>sort_key\<close> is the stable insertion sort of the list library.\<close>

definition extractKeywordSignals :: "string \<Rightarrow> string list \<Rightarrow> string list" where
  "extractKeywordSignals text keywords =
     map (\<lambda>(keyword, count). keyword @ ''('' @ showNat count @ '')'')
       (take 4
         (sort_key (\<lambda>(keyword, count). - int count)
           (filter (\<lambda>(keyword, count). count > 0)
             (map (\<lambda>keyword. (keyword, keywordMatchCount text keyword)) keywords))))"

subsection \<open>Evidence\<close>

datatype error = TypeError

text \<open>\<open>fallbackDictionary[locale].evidence\<close> reads a property of \<open>undefined\<close> when the locale
  is no key of the dictionary: a TypeError. \<open>signals[index]\<close> is \<open>undefined\<close> beyond the end of
  the array, and \<open>undefined\<close> and the empty string are falsy.\<close>

definition signalAt :: "string list \<Rightarrow> nat \<Rightarrow> string option" where
  "signalAt signals index =
     (if index < length signals \<and> signals ! index \<noteq> [] then Some (signals ! index) else None)"

definition evidenceEntry :: "EvidenceCopy \<Rightarrow> string list \<Rightarrow> string list \<Rightarrow> string \<Rightarrow> nat \<Rightarrow> EvidenceInsight" where
  "evidenceEntry copy hedgingSignals pressureSignals sentence index =
     (let rationaleParts =
            (case signalAt hedgingSignals index of
               Some s \<Rightarrow> [hedgePrefix copy @ u '': '' @ u s]
             | None \<Rightarrow> []) @
            (case signalAt pressureSignals index of
               Some s \<Rightarrow> [pressurePrefix copy @ u '': '' @ u s]
             | None \<Rightarrow> []);
          rationale = (if length rationaleParts > 0 then joinWith (u '' | '') rationaleParts
                       else defaultDetail copy)
      in \<lparr>quote = u sentence, rationale = rationale\<rparr>)"

definition synthesizeEvidence ::
  "string list \<Rightarrow> string list \<Rightarrow> string list \<Rightarrow> Locale \<Rightarrow> error + EvidenceInsight list" where
  "synthesizeEvidence highlighted hedgingSignals pressureSignals locale =
     (case fallbackDictionary locale of
        None \<Rightarrow> Inl TypeError
      | Some entry \<Rightarrow>
          (let copy = evidenceCopy entry
           in if length highlighted = 0
              then Inr [\<lparr>quote = noDataQuote copy, rationale = noDataDetail copy\<rparr>]
              else Inr (map (\<lambda>(sentence, index).
                              evidenceEntry copy hedgingSignals pressureSignals sentence index)
                         (zip highlighted [0 ..< length highlighted]))))"

subsection \<open>The analysis\<close>

text \<open>\<open>analyzeTranscriptFallback\<close> binds its intermediate results to local constants. Each
  of them is a definition here, a function of the raw transcript (and of the copy, for the
  cues and metrics), under the constant's name; \<open>textOf\<close>, \<open>lowerOf\<close>, \<open>lieProbabilityOf\<close>,
  \<open>confidenceScoreOf\<close>, \<open>cuesOf\<close> and \<open>metricsOf\<close> carry a suffix, their names being taken.\<close>

definition textOf :: "string \<Rightarrow> string" where
  "textOf raw = trim raw"

definition lowerOf :: "string \<Rightarrow> string" where
  "lowerOf raw = toLowerCase (textOf raw)"

definition words :: "string \<Rightarrow> string list" where
  "words raw = filter (\<lambda>w. w \<noteq> []) (splitWhiteSpace (lowerOf raw))"

definition sentences :: "string \<Rightarrow> string list" where
  "sentences raw =
     filter (\<lambda>segment. length segment > 0) (map trim (splitSentences False (textOf raw)))"

definition hedgingHits :: "string \<Rightarrow> nat" where
  "hedgingHits raw = countKeywordHits (lowerOf raw) hedgingKeywords"

definition pressureHits :: "string \<Rightarrow> nat" where
  "pressureHits raw = countKeywordHits (lowerOf raw) pressureKeywords"

definition negationHits :: "string \<Rightarrow> nat" where
  "negationHits raw = countKeywordHits (lowerOf raw) negationKeywords"

definition hedgingDensity :: "string \<Rightarrow> rat" where
  "hedgingDensity raw =
     double (rat_of_nat (hedgingHits raw) / rat_of_nat (max (length (words raw)) 1))"

definition pressureDensity :: "string \<Rightarrow> rat" where
  "pressureDensity raw =
     double (rat_of_nat (pressureHits raw) / rat_of_nat (max (length (words raw)) 1))"

definition negationDensity :: "string \<Rightarrow> rat" where
  "negationDensity raw =
     double (rat_of_nat (negationHits raw) / rat_of_nat (max (length (words raw)) 1))"

definition isContradiction :: "string \<Rightarrow> bool" where
  "isContradiction sentence =
     (let normalized = toLowerCase sentence
      in list_ex (\<lambda>joiner. includesStr normalized ('' '' @ joiner @ '' '')) contradictionJoiners \<and>
         (includesStr normalized ''i didn't'' \<or>
          includesStr normalized ''i did'' \<or>
          includesStr normalized ''never'' \<or>
          includesStr normalized ''no''))"

definition contradictionCandidates :: "string \<Rightarrow> string list" where
  "contradictionCandidates raw = take 3 (filter isContradiction (sentences raw))"

definition keywordHits :: "string \<Rightarrow> nat" where
  "keywordHits sentence =
     (let normalized = toLowerCase sentence
      in length (filter (\<lambda>keyword. includesStr normalized keyword)
                   (hedgingKeywords @ pressureKeywords)))"

definition highlightedSentences :: "string \<Rightarrow> string list" where
  "highlightedSentences raw =
     map fst
       (take 3
         (sort_key (\<lambda>(sentence, hits). - int hits)
           (filter (\<lambda>(sentence, hits). hits > 0)
             (map (\<lambda>sentence. (sentence, keywordHits sentence)) (sentences raw)))))"

text \<open>The sum \<open>42 + a + b + c + d\<close> is evaluated from the left; each product and each partial
  sum is rounded.\<close>

definition baseScore :: "string \<Rightarrow> rat" where
  "baseScore raw =
     double (double (double (double (42 + double (hedgingDensity raw * 520))
                               + double (pressureDensity raw * 360))
                       + double (negationDensity raw * 180))
               + double (rat_of_nat (length (contradictionCandidates raw)) * 4))"

definition lieProbabilityOf :: "string \<Rightarrow> int" where
  "lieProbabilityOf raw = min 96 (max 5 (mathRound (baseScore raw)))"

definition coverageFactor :: "string \<Rightarrow> rat" where
  "coverageFactor raw = min 1 (double (rat_of_nat (length (words raw)) / 320))"

definition stabilityPenalty :: "string \<Rightarrow> rat" where
  "stabilityPenalty raw = double (\<bar>double (hedgingDensity raw - pressureDensity raw)\<bar> * 120)"

definition confidenceScoreOf :: "string \<Rightarrow> int" where
  "confidenceScoreOf raw =
     max 38 (min 94 (mathRound (double (double (58 + double (coverageFactor raw * 32))
                                          - stabilityPenalty raw))))"

definition hedgingSignals :: "string \<Rightarrow> string list" where
  "hedgingSignals raw = extractKeywordSignals (lowerOf raw) hedgingKeywords"

definition pressureSignals :: "string \<Rightarrow> string list" where
  "pressureSignals raw = extractKeywordSignals (lowerOf raw) pressureKeywords"

text \<open>The decimal literals of the thresholds denote the nearest doubles.\<close>

definition hedgingCue :: "FallbackCopy \<Rightarrow> string \<Rightarrow> CueInsight" where
  "hedgingCue fallbackCopy raw =
     \<lparr>cue_label = hedgingLabel fallbackCopy,
      cue_value = u (toFixed1 (double (hedgingDensity raw * 100)) @ ''%''),
      risk = (if hedgingDensity raw > double (35 / 1000) then Elevated
              else if hedgingDensity raw > double (2 / 100) then Baseline else Baseline),
      detail = (if length (hedgingSignals raw) > 0
                then hedgingDetail fallbackCopy (hedgingSignals raw)
                else hedgingDetailNone fallbackCopy)\<rparr>"

definition pressureCue :: "FallbackCopy \<Rightarrow> string \<Rightarrow> CueInsight" where
  "pressureCue fallbackCopy raw =
     \<lparr>cue_label = pressureLabel fallbackCopy,
      cue_value = u (toFixed1 (double (pressureDensity raw * 100)) @ ''%''),
      risk = (if pressureDensity raw > double (3 / 100) then Critical
              else if pressureDensity raw > double (15 / 1000) then Elevated else Baseline),
      detail = (if length (pressureSignals raw) > 0
                then pressureDetail fallbackCopy (pressureSignals raw)
                else pressureDetailNone fallbackCopy)\<rparr>"

definition negationCue :: "FallbackCopy \<Rightarrow> string \<Rightarrow> CueInsight" where
  "negationCue fallbackCopy raw =
     \<lparr>cue_label = negationLabel fallbackCopy,
      cue_value = u (toFixed1 (double (negationDensity raw * 100)) @ ''%''),
      risk = (if negationDensity raw > double (25 / 1000) then Elevated else Baseline),
      detail = negationDetail fallbackCopy\<rparr>"

definition conflictCue :: "FallbackCopy \<Rightarrow> string \<Rightarrow> CueInsight" where
  "conflictCue fallbackCopy raw =
     \<lparr>cue_label = conflictLabel fallbackCopy,
      cue_value = u (showNat (length (contradictionCandidates raw))),
      risk = (if length (contradictionCandidates raw) > 1 then Critical else Elevated),
      detail = conflictDetail fallbackCopy\<rparr>"

text \<open>The array literal of three cues, and the \<open>push\<close> of the fourth.\<close>

definition cuesOf :: "FallbackCopy \<Rightarrow> string \<Rightarrow> CueInsight list" where
  "cuesOf fallbackCopy raw =
     [hedgingCue fallbackCopy raw, pressureCue fallbackCopy raw, negationCue fallbackCopy raw]
     @ (if length (contradictionCandidates raw) > 0 then [conflictCue fallbackCopy raw] else [])"

definition metricsOf :: "NumberFormat \<Rightarrow> FallbackCopy \<Rightarrow> string \<Rightarrow> MetricInsight list" where
  "metricsOf hostFormat fallbackCopy raw =
     [\<lparr>metric_label = wordCountLabel (metricsCopy fallbackCopy),
       metric_value = hostFormat (length (words raw)) @ u '' terms'',
       hint = wordCountHint (metricsCopy fallbackCopy)\<rparr>,
      \<lparr>metric_label = coverageLabel (metricsCopy fallbackCopy),
       metric_value =
         u (showInt (mathRound
                       (double (double (rat_of_nat (length (highlightedSentences raw))
                                          / rat_of_nat (max (length (sentences raw)) 1))
                                  * 100))) @ ''%''),
       hint = coverageHint (metricsCopy fallbackCopy)\<rparr>,
      \<lparr>metric_label = negationMetricLabel (metricsCopy fallbackCopy),
       metric_value = u (toFixed1 (double (negationDensity raw * 100)) @ ''%''),
       hint = negationHint (metricsCopy fallbackCopy)\<rparr>]"

text \<open>\<open>fallbackDictionary[locale] ?? fallbackDictionary.ko\<close> takes the Korean copy for an
  unknown locale. The fields of the returned object are evaluated in order; the last one calls
  \<open>synthesizeEvidence\<close>, whose exception leaves the function. The first argument is the
  number formatting of the host on which the engine runs.\<close>

definition analyzeTranscriptFallback ::
  "NumberFormat \<Rightarrow> string \<Rightarrow> Locale \<Rightarrow> error + AnalysisResult" where
  "analyzeTranscriptFallback hostFormat raw locale =
     (let fallbackCopy = (case fallbackDictionary locale of
                            Some entry \<Rightarrow> entry
                          | None \<Rightarrow> koCopy)
      in case synthesizeEvidence (highlightedSentences raw) (hedgingSignals raw)
                (pressureSignals raw) locale of
           Inl e \<Rightarrow> Inl e
         | Inr evidenceList \<Rightarrow>
             Inr \<lparr>lieProbability = lieProbabilityOf raw,
                  confidenceScore = confidenceScoreOf raw,
                  summary = summaryCopy fallbackCopy (hedgingDensity raw) (pressureDensity raw)
                              (lieProbabilityOf raw),
                  cues = cuesOf fallbackCopy raw,
                  metrics = metricsOf hostFormat fallbackCopy raw,
                  evidence = evidenceList\<rparr>)"

text \<open>The default value of the parameter: \<open>locale: Locale = 'ko'\<close>.\<close>

definition analyzeTranscriptFallbackDefault :: "NumberFormat \<Rightarrow> string \<Rightarrow> error + AnalysisResult" where
  "analyzeTranscriptFallbackDefault hostFormat raw = analyzeTranscriptFallback hostFormat raw KO"

section \<open>Notions used in the statements\<close>

text \<open>The evidence list \<open>synthesizeEvidence\<close> returns for a locale whose copy is \<open>entry\<close>.\<close>

definition evidenceOf :: "FallbackCopy \<Rightarrow> string \<Rightarrow> EvidenceInsight list" where
  "evidenceOf entry raw =
     (if highlightedSentences raw = []
      then [\<lparr>quote = noDataQuote (evidenceCopy entry),
             rationale = noDataDetail (evidenceCopy entry)\<rparr>]
      else map (\<lambda>(sentence, index).
                  evidenceEntry (evidenceCopy entry) (hedgingSignals raw) (pressureSignals raw)
                    sentence index)
             (zip (highlightedSentences raw) [0 ..< length (highlightedSentences raw)]))"

text \<open>The words of claim C1, stated without the functions of the engine.

  \<open>clamp\<close> as usual.

  A token of a text starts at every character that is no white space and stands at the start
  of the text or behind a white-space character; \<open>wordCount\<close> is the number of the tokens of the
  trimmed text.

  A word boundary lies between two parts of a text when exactly one of the two characters
  next to the cut is a word character (the start and the end of the text count as no word
  character). A keyword has a word-boundary match at index \<open>i\<close> of a text when the text reads
  the keyword from \<open>i\<close> on and has a word boundary in front of the keyword and behind it. The
  matches are looked for in the lower-cased trimmed text, where the keywords of the tables,
  which have no capital letter, match as they are written.

  A sentence is conflicting when its lower-cased text contains one of the contrast
  conjunctions between two spaces and one of the markers \<open>i didn't\<close>, \<open>i did\<close>, \<open>never\<close>,
  \<open>no\<close>; the first three conflicting sentences are retained.\<close>

definition clamp :: "int \<Rightarrow> int \<Rightarrow> int \<Rightarrow> int" where
  "clamp x lo hi = max lo (min hi x)"

definition tokenStarts :: "string \<Rightarrow> nat" where
  "tokenStarts s =
     length (filter (\<lambda>(before, c). isWhiteSpace before \<and> \<not> isWhiteSpace c)
               (zip (CHR '' '' # s) s))"

definition wordCount :: "string \<Rightarrow> nat" where
  "wordCount raw = tokenStarts (trim raw)"

definition boundaryBetween :: "string \<Rightarrow> string \<Rightarrow> bool" where
  "boundaryBetween before after =
     ((before \<noteq> [] \<and> isWordChar (last before)) \<noteq> (after \<noteq> [] \<and> isWordChar (hd after)))"

definition standsAt :: "string \<Rightarrow> string \<Rightarrow> nat \<Rightarrow> bool" where
  "standsAt keyword s i =
     (take (length keyword) (drop i s) = keyword \<and>
      boundaryBetween (take i s) (drop i s) \<and>
      boundaryBetween (take (i + length keyword) s) (drop (i + length keyword) s))"

definition wordBoundaryMatches :: "string \<Rightarrow> string \<Rightarrow> nat" where
  "wordBoundaryMatches s keyword = length (filter (standsAt keyword s) [0 ..< Suc (length s)])"

definition matchTotal :: "string \<Rightarrow> string list \<Rightarrow> nat" where
  "matchTotal raw ks = sum_list (map (wordBoundaryMatches (toLowerCase (trim raw))) ks)"

definition conflictingSentence :: "string \<Rightarrow> bool" where
  "conflictingSentence sentence =
     (list_ex (\<lambda>joiner. sublist ('' '' @ joiner @ '' '') (toLowerCase sentence))
        contradictionJoiners \<and>
      list_ex (\<lambda>marker. sublist marker (toLowerCase sentence))
        [''i didn't'', ''i did'', ''never'', ''no''])"

definition contradictionCount :: "string \<Rightarrow> nat" where
  "contradictionCount raw = length (take 3 (filter conflictingSentence (sentences raw)))"

text \<open>The density of a keyword list as claim C1 has it, an exact quotient, and the two scores
  as the claim's formulas give them in exact arithmetic.\<close>

definition keywordDensity :: "string \<Rightarrow> string list \<Rightarrow> rat" where
  "keywordDensity raw ks = rat_of_nat (matchTotal raw ks) / rat_of_nat (max (wordCount raw) 1)"

definition claimedLieProbability :: "string \<Rightarrow> int" where
  "claimedLieProbability raw =
     clamp (mathRound (42 + keywordDensity raw hedgingKeywords * 520
                         + keywordDensity raw pressureKeywords * 360
                         + keywordDensity raw negationKeywords * 180
                         + rat_of_nat (contradictionCount raw) * 4)) 5 96"

definition claimedConfidenceScore :: "string \<Rightarrow> int" where
  "claimedConfidenceScore raw =
     clamp (mathRound (58 + min 1 (rat_of_nat (wordCount raw) / 320) * 32
                         - \<bar>keywordDensity raw hedgingKeywords
                             - keywordDensity raw pressureKeywords\<bar> * 120)) 38 94"

text \<open>The density in the arithmetic of the engine: the quotient is rounded to a double.\<close>

definition doubleDensity :: "string \<Rightarrow> string list \<Rightarrow> rat" where
  "doubleDensity raw ks =
     double (rat_of_nat (matchTotal raw ks) / rat_of_nat (max (wordCount raw) 1))"

text \<open>A keyword cannot match at two places that overlap when no later character of it equals
  its first character with a word boundary in front.\<close>

definition noSelfOverlap :: "string \<Rightarrow> bool" where
  "noSelfOverlap keyword =
     list_all (\<lambda>d. \<not> (keyword ! d = hd keyword \<and>
                       isWordChar (keyword ! (d - 1)) \<noteq> isWordChar (keyword ! d)))
       [1 ..< length keyword]"

text \<open>The words of claims C7 and C10: the label and detail copy of the four cues, the label
  and hint copy of the three metrics, and the placeholder evidence entry, as one locale's
  copy gives them.\<close>

definition cueCopy :: "FallbackCopy \<Rightarrow> string \<Rightarrow> (ustring \<times> ustring) list" where
  "cueCopy copy raw =
     [(hedgingLabel copy,
       if hedgingSignals raw = [] then hedgingDetailNone copy
       else hedgingDetail copy (hedgingSignals raw)),
      (pressureLabel copy,
       if pressureSignals raw = [] then pressureDetailNone copy
       else pressureDetail copy (pressureSignals raw)),
      (negationLabel copy, negationDetail copy),
      (conflictLabel copy, conflictDetail copy)]"

definition metricCopy :: "FallbackCopy \<Rightarrow> (ustring \<times> ustring) list" where
  "metricCopy copy =
     [(wordCountLabel (metricsCopy copy), wordCountHint (metricsCopy copy)),
      (coverageLabel (metricsCopy copy), coverageHint (metricsCopy copy)),
      (negationMetricLabel (metricsCopy copy), negationHint (metricsCopy copy))]"

definition placeholderEvidence :: "FallbackCopy \<Rightarrow> EvidenceInsight" where
  "placeholderEvidence copy =
     \<lparr>quote = noDataQuote (evidenceCopy copy), rationale = noDataDetail (evidenceCopy copy)\<rparr>"

text \<open>A word \<open>w\<close> stands in \<open>s\<close> at index \<open>i\<close> as a word of its own: \<open>s\<close> reads \<open>w\<close> there, and
  the characters before and behind, if any, are no word characters.\<close>

definition occursAsWordAt :: "string \<Rightarrow> string \<Rightarrow> nat \<Rightarrow> bool" where
  "occursAsWordAt w s i =
     (take (length w) (drop i s) = w \<and>
      (i = 0 \<or> \<not> isWordChar (s ! (i - 1))) \<and>
      (length s \<le> i + length w \<or> \<not> isWordChar (s ! (i + length w))))"

definition occursAsWord :: "string \<Rightarrow> string \<Rightarrow> bool" where
  "occursAsWord w s = list_ex (occursAsWordAt w s) [0 ..< Suc (length s)]"

text \<open>The conflicting clause in the words of claim C5: the sentence contains one of the contrast
  conjunctions as a standalone word, and one of the markers \<open>didn't\<close>, \<open>did\<close>, \<open>never\<close>, \<open>no\<close>.\<close>

definition conflictingAsClaimed :: "string \<Rightarrow> bool" where
  "conflictingAsClaimed sentence =
     (let normalized = toLowerCase sentence
      in list_ex (\<lambda>joiner. occursAsWord joiner normalized) contradictionJoiners \<and>
         list_ex (\<lambda>marker. includesStr normalized marker)
           [''didn't'', ''did'', ''never'', ''no''])"

text \<open>A keyword of the tables, as far as matching goes: ASCII without capital letters, starting
  and ending with a word character.\<close>

definition plainChar :: "char \<Rightarrow> bool" where
  "plainChar k = (codeUnit k < 128 \<and> \<not> (65 \<le> codeUnit k \<and> codeUnit k \<le> 90))"

definition plainKeyword :: "string \<Rightarrow> bool" where
  "plainKeyword keyword =
     (keyword \<noteq> [] \<and> isWordChar (hd keyword) \<and> isWordChar (last keyword) \<and>
      list_all plainChar keyword)"

text \<open>The text in which a keyword stands \<open>n + 1\<close> times with one space between two
  occurrences: what \<open>trim\<close> leaves of the keyword and a space, repeated \<open>n + 1\<close> times.\<close>

fun repeated :: "string \<Rightarrow> nat \<Rightarrow> string" where
  "repeated keyword 0 = keyword"
| "repeated keyword (Suc n) = keyword @ '' '' @ repeated keyword n"

text \<open>The words of claim C6. The raw occurrence count of the keywords in a sentence: every
  place of the lower-cased sentence at which a keyword of the hedging or the pressure list
  starts counts, so a keyword that occurs three times counts three times. The candidates are
  the sentences the code keeps, in the order of the transcript.\<close>

definition occurrences :: "string \<Rightarrow> string \<Rightarrow> nat" where
  "occurrences keyword s = length (filter (prefix keyword) (suffixes s))"

definition occurrenceCount :: "string \<Rightarrow> nat" where
  "occurrenceCount sentence =
     sum_list (map (\<lambda>keyword. occurrences keyword (toLowerCase sentence))
                (hedgingKeywords @ pressureKeywords))"

definition candidates :: "string \<Rightarrow> string list" where
  "candidates raw = filter (\<lambda>sentence. 0 < keywordHits sentence) (sentences raw)"

section \<open>Basic facts\<close>

subsection \<open>Rounding to a double\<close>

lemma roundTiesEven_bounds: "\<lfloor>y\<rfloor> \<le> roundTiesEven y" "roundTiesEven y \<le> \<lfloor>y\<rfloor> + 1"
  by (simp_all add: roundTiesEven_def Let_def)

lemma roundTiesEven_of_int: "roundTiesEven (rat_of_int m) = m"
  by (simp add: roundTiesEven_def)

lemma double_zero: "double 0 = 0"
  by (simp add: double_def)

lemma double_nonneg: "0 \<le> x \<Longrightarrow> 0 \<le> double x"
proof -
  assume x: "0 \<le> x"
  have q: "0 < (power_int 2 e :: rat)" for e
    by (simp add: zero_less_power_int)
  show ?thesis
  proof (cases "x = 0")
    case True
    then show ?thesis by (simp add: double_def)
  next
    case False
    let ?q = "power_int 2 (max (binade \<bar>x\<bar>) (- 1022) - 52) :: rat"
    from x q [of "max (binade \<bar>x\<bar>) (- 1022) - 52"] have "0 \<le> x / ?q" by simp
    then have "0 \<le> \<lfloor>x / ?q\<rfloor>" by simp
    with roundTiesEven_bounds(1) [of "x / ?q"] have "0 \<le> roundTiesEven (x / ?q)" by linarith
    with q [of "max (binade \<bar>x\<bar>) (- 1022) - 52"] False show ?thesis
      by (simp add: double_def Let_def)
  qed
qed

lemma pow2_diff: "power_int (2::rat) (int m - int n) = 2 ^ m / 2 ^ n"
  by (simp add: power_int_diff)

lemma bitLength_floorlog: "bitLength n = int (floorlog 2 (nat n))"
proof (induction n rule: bitLength.induct)
  case (1 n)
  show ?case
  proof (cases "n \<le> 0")
    case True
    then show ?thesis by (simp add: bitLength.simps [of n] floorlog_def)
  next
    case False
    then have "nat (n div 2) = nat n div 2" by (simp add: nat_div_distrib)
    with False 1 show ?thesis
      by (simp add: bitLength.simps [of n] compute_floorlog [of 2 "nat n"])
  qed
qed

lemma binade_bounds:
  assumes "0 < x"
  shows "power_int 2 (binade x) \<le> x" and "x < power_int 2 (binade x + 1)"
proof -
  obtain a b where ab: "quotient_of x = (a, b)" by (cases "quotient_of x")
  then have b: "0 < b" and x: "x = rat_of_int a / rat_of_int b"
    by (simp_all add: quotient_of_denom_pos quotient_of_div)
  with assms have a: "0 < a"
    by (simp add: zero_less_divide_iff)
  let ?la = "floorlog 2 (nat a)" and ?lb = "floorlog 2 (nat b)"
  let ?e = "int ?la - int ?lb"
  from a b have ba: "2 ^ (?la - 1) \<le> nat a" "nat a < 2 ^ ?la"
    and bb: "2 ^ (?lb - 1) \<le> nat b" "nat b < 2 ^ ?lb"
    using floorlog_bounds [of "nat a" 2] floorlog_bounds [of "nat b" 2] by simp_all
  have la: "0 < ?la" and lb: "0 < ?lb"
    using a b by (simp_all add: floorlog_def)
  have ua: "rat_of_int a < 2 ^ ?la"
  proof -
    from ba(2) have "int (nat a) < int (2 ^ ?la)" by (simp only: of_nat_less_iff)
    with a have "a < 2 ^ ?la" by simp
    then have "rat_of_int a < rat_of_int (2 ^ ?la)" by (simp only: of_int_less_iff)
    then show ?thesis by simp
  qed
  have lbb: "(2::rat) ^ (?lb - 1) \<le> rat_of_int b"
  proof -
    from bb(1) have "int (2 ^ (?lb - 1)) \<le> int (nat b)" by (simp only: of_nat_le_iff)
    with b have "2 ^ (?lb - 1) \<le> b" by simp
    then have "rat_of_int (2 ^ (?lb - 1)) \<le> rat_of_int b" by (simp only: of_int_le_iff)
    then show ?thesis by simp
  qed
  have lower: "power_int 2 (?e - 1) \<le> x"
  proof -
    have la1: "(2::rat) ^ (?la - 1) \<le> rat_of_int a"
    proof -
      from ba(1) have "int (2 ^ (?la - 1)) \<le> int (nat a)" by (simp only: of_nat_le_iff)
      with a have "2 ^ (?la - 1) \<le> a" by simp
      then have "rat_of_int (2 ^ (?la - 1)) \<le> rat_of_int a" by (simp only: of_int_le_iff)
      then show ?thesis by simp
    qed
    have ub: "rat_of_int b < 2 ^ ?lb"
    proof -
      from bb(2) have "int (nat b) < int (2 ^ ?lb)" by (simp only: of_nat_less_iff)
      with b have "b < 2 ^ ?lb" by simp
      then have "rat_of_int b < rat_of_int (2 ^ ?lb)" by (simp only: of_int_less_iff)
      then show ?thesis by simp
    qed
    have e1: "?e - 1 = int (?la - 1) - int ?lb"
      using la by linarith
    have "power_int 2 (?e - 1) = (2::rat) ^ (?la - 1) / 2 ^ ?lb"
      unfolding e1 by (rule pow2_diff)
    also have "\<dots> \<le> rat_of_int a / 2 ^ ?lb"
      using la1 by (simp add: divide_right_mono)
    also have "\<dots> \<le> rat_of_int a / rat_of_int b"
      using ub a b by (simp add: frac_le)
    finally show ?thesis by (simp add: x)
  qed
  have upper: "x < power_int 2 (?e + 1)"
  proof -
    have "x < 2 ^ ?la / rat_of_int b"
      using ua b by (simp add: x divide_strict_right_mono)
    also have "\<dots> \<le> 2 ^ ?la / 2 ^ (?lb - 1)"
      using lbb b by (simp add: frac_le)
    also have "\<dots> = power_int 2 (int ?la - int (?lb - 1))"
      by (rule pow2_diff [symmetric])
    also have "int ?la - int (?lb - 1) = ?e + 1"
      using lb by linarith
    finally show ?thesis .
  qed
  have e: "binade x = (if power_int 2 ?e \<le> x then ?e else ?e - 1)"
    by (simp add: binade_def ab bitLength_floorlog)
  show "power_int 2 (binade x) \<le> x"
    using lower by (simp add: e)
  show "x < power_int 2 (binade x + 1)"
    using upper by (auto simp: e not_le)
qed

lemma pow2_pos: "0 < (power_int 2 e :: rat)"
  by (simp add: zero_less_power_int)

lemma pow2_mono: "i \<le> j \<Longrightarrow> (power_int 2 i :: rat) \<le> power_int 2 j"
  by (rule power_int_increasing) simp_all

lemma roundTiesEven_nearest: "\<bar>rat_of_int (roundTiesEven y) - y\<bar> \<le> 1 / 2"
proof -
  define f where "f = \<lfloor>y\<rfloor>"
  have b: "rat_of_int f \<le> y" "y < rat_of_int f + 1"
    unfolding f_def by linarith+
  consider "y - rat_of_int f < 1 / 2" | "1 / 2 < y - rat_of_int f" | "y - rat_of_int f = 1 / 2"
    by linarith
  then show ?thesis
  proof cases
    case 1
    then have "roundTiesEven y = f"
      by (simp add: roundTiesEven_def Let_def f_def)
    with 1 b show ?thesis by linarith
  next
    case 2
    then have "roundTiesEven y = f + 1"
      by (simp add: roundTiesEven_def Let_def f_def)
    with 2 b show ?thesis by (simp add: abs_if)
  next
    case 3
    then have "roundTiesEven y = f \<or> roundTiesEven y = f + 1"
      by (simp add: roundTiesEven_def Let_def f_def)
    with 3 b show ?thesis by (auto simp: abs_if)
  qed
qed

text \<open>\<open>double x\<close> is a multiple of the spacing of the doubles around \<open>x\<close>, and no such multiple
  is nearer to \<open>x\<close>.\<close>

lemma double_nearest:
  assumes "x \<noteq> 0" and "quantum = power_int 2 (max (binade \<bar>x\<bar>) (- 1022) - 52)"
  shows "\<exists>k. double x = rat_of_int k * quantum" and "\<bar>double x - x\<bar> \<le> quantum / 2"
proof -
  have q: "0 < quantum"
    unfolding assms(2) by (rule pow2_pos)
  have d: "double x = rat_of_int (roundTiesEven (x / quantum)) * quantum"
    using assms by (simp add: double_def Let_def)
  then show "\<exists>k. double x = rat_of_int k * quantum"
    by blast
  have "double x - x = (rat_of_int (roundTiesEven (x / quantum)) - x / quantum) * quantum"
    using q by (simp add: d field_simps)
  then have "\<bar>double x - x\<bar> = \<bar>rat_of_int (roundTiesEven (x / quantum)) - x / quantum\<bar> * quantum"
    using q by (simp add: abs_mult)
  also have "\<dots> \<le> 1 / 2 * quantum"
    using roundTiesEven_nearest [of "x / quantum"] q by (intro mult_right_mono) simp_all
  finally show "\<bar>double x - x\<bar> \<le> quantum / 2"
    by simp
qed

lemma double_ge_int:
  assumes m: "0 < m" "m \<le> 2 ^ 53" and x: "rat_of_int m \<le> x"
  shows "rat_of_int m \<le> double x"
proof -
  from m x have xp: "0 < x" by (meson less_le_trans of_int_0_less_iff)
  let ?e = "binade x"
  let ?q = "power_int 2 (?e - 52) :: rat"
  have bl: "power_int 2 ?e \<le> x" and bu: "x < power_int 2 (?e + 1)"
    using binade_bounds [OF xp] by simp_all
  have "1 \<le> x" using m(1) x by (smt (verit) of_int_1_le_iff order_trans)
  with bu have "(1::rat) < power_int 2 (?e + 1)" by simp
  then have e0: "0 \<le> ?e"
    by (metis (no_types) add.commute dual_order.strict_iff_not linorder_not_le one_le_numeral
        power_int_0_right pow2_mono zle_add1_eq_le)
  then have d: "double x = rat_of_int (roundTiesEven (x / ?q)) * ?q"
    using xp by (simp add: double_def Let_def max_def)
  have q: "0 < ?q" by (rule pow2_pos)
  have low: "rat_of_int k \<le> x / ?q \<Longrightarrow> rat_of_int k * ?q \<le> double x" for k
  proof -
    assume "rat_of_int k \<le> x / ?q"
    then have "k \<le> \<lfloor>x / ?q\<rfloor>" by (simp add: le_floor_iff)
    with roundTiesEven_bounds(1) [of "x / ?q"] have "k \<le> roundTiesEven (x / ?q)" by linarith
    then have "rat_of_int k \<le> rat_of_int (roundTiesEven (x / ?q))" by simp
    with q show ?thesis by (simp add: d)
  qed
  show ?thesis
  proof (cases "?e \<le> 52")
    case True
    with e0 obtain n where n: "52 - ?e = int n" by (metis diff_ge_0_iff_ge nonneg_int_cases)
    then have qn: "?q = 1 / 2 ^ n"
      by (metis add.inverse_inverse minus_diff_eq power_int_minus power_int_of_nat inverse_eq_divide)
    have "rat_of_int (m * 2 ^ n) \<le> x / ?q"
      using x by (simp add: qn)
    then have "rat_of_int (m * 2 ^ n) * ?q \<le> double x" by (rule low)
    then show ?thesis by (simp add: qn)
  next
    case False
    then have "53 \<le> ?e" by simp
    then have "(power_int 2 53 :: rat) \<le> power_int 2 ?e" by (rule pow2_mono)
    moreover have "rat_of_int m \<le> power_int 2 53"
    proof -
      from m(2) have "rat_of_int m \<le> rat_of_int (2 ^ 53)" by (simp only: of_int_le_iff)
      then show ?thesis by simp
    qed
    ultimately have mm: "rat_of_int m \<le> power_int 2 ?e" by simp
    have "power_int 2 ?e = (power_int 2 52 :: rat) * ?q"
      by (simp add: power_int_diff)
    then have pe: "power_int 2 ?e = rat_of_int (2 ^ 52) * ?q" by simp
    with bl q have "rat_of_int (2 ^ 52) \<le> x / ?q"
      by (simp add: pos_le_divide_eq)
    then have "rat_of_int (2 ^ 52) * ?q \<le> double x" by (rule low)
    with pe mm show ?thesis by simp
  qed
qed

lemma double_values: "double 42 = 42" "double 1 = 1" "double (1 / 2) = 1 / 2"
  "double 100 = 100" "double 50 = 50"
  by code_simp+

text \<open>The rounding shows in the text of a number: with 23 hits in 80 words the density times
  100 is the double \<open>28.749999999999996...\<close>, written \<open>28.7\<close>, where the exact product \<open>28.75\<close>
  would be written \<open>28.8\<close>.\<close>

lemma toFixed1_of_a_double:
  "toFixed1 (double (double (23 / 80) * 100)) = ''28.7''"
  "toFixed1 (23 / 80 * 100) = ''28.8''"
  by code_simp+

subsection \<open>The result for a supported locale; the scores\<close>

lemma supported_locale:
  "locale = KO \<or> locale = EN \<Longrightarrow> \<exists>entry. fallbackDictionary locale = Some entry"
  by (auto simp: fallbackDictionary_def)

lemma analyze_supported:
  "fallbackDictionary locale = Some entry \<Longrightarrow>
   analyzeTranscriptFallback hostFormat raw locale =
     Inr \<lparr>lieProbability = lieProbabilityOf raw,
          confidenceScore = confidenceScoreOf raw,
          summary = summaryCopy entry (hedgingDensity raw) (pressureDensity raw)
                      (lieProbabilityOf raw),
          cues = cuesOf entry raw,
          metrics = metricsOf hostFormat entry raw,
          evidence = evidenceOf entry raw\<rparr>"
  by (simp add: analyzeTranscriptFallback_def synthesizeEvidence_def evidenceOf_def Let_def)

lemma analyze_KO:
  "analyzeTranscriptFallback hostFormat raw KO =
     Inr \<lparr>lieProbability = lieProbabilityOf raw,
          confidenceScore = confidenceScoreOf raw,
          summary = summaryCopy koCopy (hedgingDensity raw) (pressureDensity raw)
                      (lieProbabilityOf raw),
          cues = cuesOf koCopy raw,
          metrics = metricsOf hostFormat koCopy raw,
          evidence = evidenceOf koCopy raw\<rparr>"
  by (rule analyze_supported) (simp add: fallbackDictionary_def)

lemma analyze_EN:
  "analyzeTranscriptFallback hostFormat raw EN =
     Inr \<lparr>lieProbability = lieProbabilityOf raw,
          confidenceScore = confidenceScoreOf raw,
          summary = summaryCopy enCopy (hedgingDensity raw) (pressureDensity raw)
                      (lieProbabilityOf raw),
          cues = cuesOf enCopy raw,
          metrics = metricsOf hostFormat enCopy raw,
          evidence = evidenceOf enCopy raw\<rparr>"
  by (rule analyze_supported) (simp add: fallbackDictionary_def)

lemma score_bounds:
  "5 \<le> lieProbabilityOf raw" "lieProbabilityOf raw \<le> 96"
  "38 \<le> confidenceScoreOf raw" "confidenceScoreOf raw \<le> 94"
  by (simp_all add: lieProbabilityOf_def confidenceScoreOf_def)

lemma mathRound_of_int: "mathRound (rat_of_int z) = z"
  unfolding mathRound_def by linarith

lemma mathRound_42: "mathRound 42 = 42"
  using mathRound_of_int [of 42] by simp

lemma mathRound_mono: "x \<le> y \<Longrightarrow> mathRound x \<le> mathRound y"
  unfolding mathRound_def by (simp add: floor_mono)

lemma density_nonneg:
  "0 \<le> hedgingDensity raw" "0 \<le> pressureDensity raw" "0 \<le> negationDensity raw"
  by (simp_all add: hedgingDensity_def pressureDensity_def negationDensity_def double_nonneg)

text \<open>No rounded partial sum of the base score falls below 42.\<close>

lemma double_sum_42:
  assumes "42 \<le> x" and "0 \<le> y"
  shows "42 \<le> double (x + double y)"
proof -
  from assms(2) have "0 \<le> double y" by (rule double_nonneg)
  with assms(1) have "rat_of_int 42 \<le> x + double y" by simp
  then have "rat_of_int 42 \<le> double (x + double y)"
    by (intro double_ge_int) simp_all
  then show ?thesis by simp
qed

lemma lieProbability_at_least_42: "42 \<le> lieProbabilityOf raw"
proof -
  have "42 \<le> baseScore raw"
    unfolding baseScore_def using density_nonneg [of raw]
    by (intro double_sum_42) simp_all
  then have "mathRound 42 \<le> mathRound (baseScore raw)"
    by (rule mathRound_mono)
  then show ?thesis
    by (simp add: lieProbabilityOf_def mathRound_42)
qed

lemma trim_Nil: "trim [] = []"
  by (simp add: trim_def)

lemma trim_whitespace:
  assumes "\<forall>c\<in>set raw. isWhiteSpace c"
  shows "trim raw = []"
proof -
  from assms have h: "dropWhile isWhiteSpace raw = []"
    by (induction raw) simp_all
  show ?thesis unfolding trim_def h by simp
qed

lemma countKeywordHits_Nil: "countKeywordHits [] ks = 0"
proof -
  have "foldl (\<lambda>total keyword. total + keywordMatchCount [] keyword) a ks = a" for a
    by (induction ks arbitrary: a)
       (simp_all add: keywordMatchCount_def matchesAt_def wordBoundary_def)
  then show ?thesis by (simp add: countKeywordHits_def)
qed

lemma empty_text:
  assumes "trim raw = []"
  shows "lieProbabilityOf raw = 42" and "highlightedSentences raw = []"
proof -
  have s: "sentences raw = []"
    using assms by (simp add: sentences_def textOf_def trim_Nil)
  have d: "hedgingDensity raw = 0" "pressureDensity raw = 0" "negationDensity raw = 0"
    using assms
    by (simp_all add: hedgingDensity_def pressureDensity_def negationDensity_def
        hedgingHits_def pressureHits_def negationHits_def lowerOf_def textOf_def
        toLowerCase_def countKeywordHits_Nil double_zero)
  show "lieProbabilityOf raw = 42"
    by (simp add: lieProbabilityOf_def baseScore_def d contradictionCandidates_def s
        mathRound_42 double_zero double_values)
  show "highlightedSentences raw = []"
    by (simp add: highlightedSentences_def s)
qed

lemma en_placeholder:
  "noDataQuote (evidenceCopy enCopy) =
     u ''Not enough material to generate defensible evidence quotes.''"
  "noDataDetail (evidenceCopy enCopy) = u ''Gather more utterances and rerun the profiler.''"
  by (simp_all add: enCopy_def)

subsection \<open>Word count and densities\<close>

lemma mathRound_numeral: "mathRound (numeral a) = numeral a"
  using mathRound_of_int [of "numeral a"] by simp

lemma mathRound_numeral_divide:
  "mathRound (numeral a / numeral b) = (2 * numeral a + numeral b) div (2 * numeral b)"
proof -
  have "(numeral a / numeral b :: rat) + 1 / 2 =
          rat_of_int (2 * numeral a + numeral b) / rat_of_int (2 * numeral b)"
    by (simp add: field_simps)
  then show ?thesis
    unfolding mathRound_def by (simp only: floor_divide_of_int_eq)
qed

lemma codeUnit_less: "codeUnit c < 256"
  by (simp add: codeUnit_def)

lemma codeUnit_char_of: "n < 256 \<Longrightarrow> codeUnit (char_of n) = n"
  by (simp add: codeUnit_def)

lemma codeUnit_lowered: "codeUnit c \<le> 222 \<Longrightarrow> codeUnit (char_of (codeUnit c + 32)) = codeUnit c + 32"
  by (intro codeUnit_char_of) simp

text \<open>Lower-casing keeps white space where it is, so the lower-cased text has the tokens of
  the trimmed text, lower-cased.\<close>

lemma isWhiteSpace_lowerChar: "isWhiteSpace (lowerChar c) = isWhiteSpace c"
  using codeUnit_lowered [of c] by (auto simp: isWhiteSpace_def lowerChar_def Let_def)

lemma splitWhiteSpace_lower:
  "splitWhiteSpace (map lowerChar s) = map (map lowerChar) (splitWhiteSpace s)"
proof (induction s rule: splitWhiteSpace.induct)
  case 1
  show ?case by simp
next
  case (2 c cs)
  have dw: "dropWhile isWhiteSpace (map lowerChar cs) = map lowerChar (dropWhile isWhiteSpace cs)"
    by (simp add: dropWhile_map comp_def isWhiteSpace_lowerChar)
  show ?case
  proof (cases "isWhiteSpace c")
    case True
    with 2 show ?thesis by (simp add: isWhiteSpace_lowerChar dw)
  next
    case False
    with 2 show ?thesis
      by (simp add: isWhiteSpace_lowerChar split: list.splits)
  qed
qed

text \<open>The pieces of \<open>split\<close> that are not empty are as many as the token starts.\<close>

lemma splitWhiteSpace_nonempty: "splitWhiteSpace s \<noteq> []"
  by (induction s rule: splitWhiteSpace.induct) (simp_all split: list.splits)

lemma splitWhiteSpace_hd_Nil:
  "(hd (splitWhiteSpace s) = []) = (s = [] \<or> isWhiteSpace (hd s))"
  by (cases s) (simp_all split: list.splits)

lemma tokens_dropWhile:
  "length (filter (\<lambda>w. w \<noteq> []) (splitWhiteSpace (dropWhile isWhiteSpace s))) =
   length (filter (\<lambda>w. w \<noteq> []) (splitWhiteSpace s))"
  by (cases s) simp_all

lemma tokens_Cons:
  "length (filter (\<lambda>w. w \<noteq> []) (splitWhiteSpace (c # cs))) =
     (if isWhiteSpace c then length (filter (\<lambda>w. w \<noteq> []) (splitWhiteSpace cs))
      else if cs = [] \<or> isWhiteSpace (hd cs)
           then Suc (length (filter (\<lambda>w. w \<noteq> []) (splitWhiteSpace cs)))
           else length (filter (\<lambda>w. w \<noteq> []) (splitWhiteSpace cs)))"
proof (cases "isWhiteSpace c")
  case True
  then show ?thesis by (simp add: tokens_dropWhile)
next
  case False
  obtain w ws where s: "splitWhiteSpace cs = w # ws"
    using splitWhiteSpace_nonempty [of cs] by (cases "splitWhiteSpace cs") auto
  have "(w = []) = (cs = [] \<or> isWhiteSpace (hd cs))"
    using splitWhiteSpace_hd_Nil [of cs] s by simp
  with False s show ?thesis by auto
qed

lemma token_starts_pieces:
  "length (filter (\<lambda>(before, c). isWhiteSpace before \<and> \<not> isWhiteSpace c) (zip (p # s) s)) +
     (if \<not> isWhiteSpace p \<and> s \<noteq> [] \<and> \<not> isWhiteSpace (hd s) then 1 else 0) =
   length (filter (\<lambda>w. w \<noteq> []) (splitWhiteSpace s))"
proof (induction s arbitrary: p)
  case Nil
  show ?case by simp
next
  case (Cons c cs)
  show ?case
    unfolding tokens_Cons using Cons [of c] by (auto split: if_splits)
qed

lemma tokenStarts_pieces:
  "tokenStarts s = length (filter (\<lambda>w. w \<noteq> []) (splitWhiteSpace s))"
proof -
  have "isWhiteSpace CHR '' ''"
    by (simp add: isWhiteSpace_def codeUnit_def)
  with token_starts_pieces [of "CHR '' ''" s] show ?thesis
    by (simp add: tokenStarts_def)
qed

lemma words_count: "length (words raw) = wordCount raw"
proof -
  have "filter (\<lambda>w. w \<noteq> []) (map (map lowerChar) xs) =
          map (map lowerChar) (filter (\<lambda>w. w \<noteq> []) xs)" for xs
    by (induction xs) simp_all
  then show ?thesis
    by (simp add: words_def wordCount_def tokenStarts_pieces lowerOf_def textOf_def
        toLowerCase_def splitWhiteSpace_lower)
qed

lemma countKeywordHits_sum: "countKeywordHits t ks = sum_list (map (keywordMatchCount t) ks)"
proof -
  have "foldl (\<lambda>total keyword. total + keywordMatchCount t keyword) a ks =
          a + sum_list (map (keywordMatchCount t) ks)" for a
    by (induction ks arbitrary: a) simp_all
  then show ?thesis by (simp add: countKeywordHits_def)
qed

subsection \<open>Copy, cues and evidence\<close>

lemma includesStr_sublist: "includesStr s k = sublist k s"
  by (induction s) (simp_all add: sublist_Cons_right)

lemma ko_en_labels_differ:
  "hedgingLabel koCopy \<noteq> hedgingLabel enCopy"
  "wordCountLabel (metricsCopy koCopy) \<noteq> wordCountLabel (metricsCopy enCopy)"
  "wordCountHint (metricsCopy koCopy) \<noteq> wordCountHint (metricsCopy enCopy)"
  "negationDetail koCopy \<noteq> negationDetail enCopy"
  "noDataDetail (evidenceCopy koCopy) \<noteq> noDataDetail (evidenceCopy enCopy)"
  by (simp_all add: koCopy_def enCopy_def u_def)

lemma ko_en_summary_differ: "summaryCopy koCopy h p l \<noteq> summaryCopy enCopy h p l"
  by (simp add: koCopy_def enCopy_def u_def)

lemma cues_locale_free:
  "map cue_value (cuesOf a raw) = map cue_value (cuesOf b raw)"
  "map risk (cuesOf a raw) = map risk (cuesOf b raw)"
  "length (cuesOf a raw) = length (cuesOf b raw)"
  by (simp_all add: cuesOf_def hedgingCue_def pressureCue_def negationCue_def conflictCue_def)

lemma metrics_locale_free:
  "map metric_value (metricsOf hostFormat a raw) = map metric_value (metricsOf hostFormat b raw)"
  "length (metricsOf hostFormat a raw) = 3"
  by (simp_all add: metricsOf_def)

lemma map_zip_fst:
  "length xs = length ys \<Longrightarrow> map (\<lambda>(x, i). f x) (zip xs ys) = map f xs"
  by (induction xs ys rule: list_induct2) simp_all

lemma map_zip_index: "map (\<lambda>(x, i). f x) (zip xs [0 ..< length xs]) = map f xs"
  by (rule map_zip_fst) simp

lemma quote_evidenceEntry: "quote (evidenceEntry copy hs ps sentence index) = u sentence"
  by (simp add: evidenceEntry_def Let_def)

lemma evidence_quotes:
  "highlightedSentences raw \<noteq> [] \<Longrightarrow> map quote (evidenceOf a raw) = map u (highlightedSentences raw)"
proof -
  assume "highlightedSentences raw \<noteq> []"
  then have "map quote (evidenceOf a raw) =
    map (\<lambda>(x, i). u x) (zip (highlightedSentences raw) [0 ..< length (highlightedSentences raw)])"
    by (simp add: evidenceOf_def comp_def case_prod_unfold quote_evidenceEntry)
  then show ?thesis by (simp only: map_zip_index)
qed

lemma evidence_placeholder:
  "highlightedSentences raw = [] \<Longrightarrow> evidenceOf a raw = [\<lparr>quote = noDataQuote (evidenceCopy a), rationale = noDataDetail (evidenceCopy a)\<rparr>]"
  by (simp add: evidenceOf_def)

lemma evidence_length:
  "length (evidenceOf a raw) = (if highlightedSentences raw = [] then 1 else length (highlightedSentences raw))"
  by (simp add: evidenceOf_def)

lemma cues_copy:
  "map (\<lambda>c. (cue_label c, detail c)) (cuesOf copy raw) =
     take (length (cuesOf copy raw)) (cueCopy copy raw)"
  by (simp add: cuesOf_def hedgingCue_def pressureCue_def negationCue_def conflictCue_def
      cueCopy_def)

lemma metrics_copy:
  "map (\<lambda>m. (metric_label m, hint m)) (metricsOf hostFormat copy raw) = metricCopy copy"
  by (simp add: metricsOf_def metricCopy_def)

lemma cues_differ:
  "map cue_label (cuesOf koCopy raw) \<noteq> map cue_label (cuesOf enCopy raw)"
  "map detail (cuesOf koCopy raw) \<noteq> map detail (cuesOf enCopy raw)"
  using ko_en_labels_differ
  by (simp_all add: cuesOf_def hedgingCue_def pressureCue_def negationCue_def)

lemma metrics_differ:
  "map metric_label (metricsOf hostFormat koCopy raw) \<noteq> map metric_label (metricsOf hostFormat enCopy raw)"
  "map hint (metricsOf hostFormat koCopy raw) \<noteq> map hint (metricsOf hostFormat enCopy raw)"
  using ko_en_labels_differ
  by (simp_all add: metricsOf_def)

lemma isContradiction_iff:
  "isContradiction sentence \<longleftrightarrow>
     (\<exists>joiner\<in>set contradictionJoiners. sublist ('' '' @ joiner @ '' '') (toLowerCase sentence)) \<and>
     (\<exists>marker\<in>set [''i didn't'', ''i did'', ''never'', ''no'']. sublist marker (toLowerCase sentence))"
  by (simp add: isContradiction_def Let_def list_ex_iff includesStr_sublist)

lemma cues_length:
  "length (cuesOf copy raw) = (if contradictionCandidates raw = [] then 3 else 4)"
  by (simp add: cuesOf_def)

lemma conflict_cue:
  "contradictionCandidates raw \<noteq> [] \<Longrightarrow> cuesOf copy raw ! 3 = conflictCue copy raw"
  by (simp add: cuesOf_def)

subsection \<open>Matches and words\<close>

lemma codeUnit_inject: "codeUnit a = codeUnit b \<Longrightarrow> a = b"
  by (simp add: codeUnit_def)

lemma lowered_range:
  "\<not> (65 \<le> codeUnit (lowerChar c) \<and> codeUnit (lowerChar c) \<le> 90) \<and>
   \<not> (192 \<le> codeUnit (lowerChar c) \<and> codeUnit (lowerChar c) \<le> 222 \<and>
      codeUnit (lowerChar c) \<noteq> 215)"
  using codeUnit_lowered [of c] codeUnit_less [of c]
  by (auto simp: lowerChar_def Let_def)

lemma canonicalize_plain_lowered:
  assumes "plainChar k" and "canonicalize k = canonicalize (lowerChar c)"
  shows "k = lowerChar c"
proof -
  have "codeUnit k = codeUnit (lowerChar c)"
    using assms lowered_range [of c] codeUnit_less [of "lowerChar c"]
    by (auto simp: canonicalize_def plainChar_def Let_def split: if_splits)
  then show ?thesis by (rule codeUnit_inject)
qed

lemma literal_plain_lowered:
  "list_all plainChar keyword \<Longrightarrow> literalIgnoreCase keyword (map lowerChar s) \<Longrightarrow>
   take (length keyword) (map lowerChar s) = keyword"
proof (induction keyword "map lowerChar s" arbitrary: s rule: literalIgnoreCase.induct)
  case (1 s)
  then show ?case by simp
next
  case (2 k ks)
  then show ?case by simp
next
  case (3 k ks c cs)
  then obtain c0 s0 where s: "s = c0 # s0" "c = lowerChar c0" "cs = map lowerChar s0"
    by auto
  with 3 show ?case
    by (auto dest: canonicalize_plain_lowered)
qed

lemma countMatches_positive:
  "0 < countMatches p keyword s \<Longrightarrow>
   \<exists>pre rest. s = pre @ rest \<and>
     matchesAt (if pre = [] then p else isWordChar (last pre)) keyword rest"
proof (induction p keyword s rule: countMatches.induct)
  case (1 prevWord keyword)
  then have "matchesAt prevWord keyword []"
    by (simp split: if_splits)
  then show ?case by simp
next
  case (2 prevWord keyword c cs)
  show ?case
  proof (cases "matchesAt prevWord keyword (c # cs)")
    case True
    then have "c # cs = [] @ (c # cs) \<and>
        matchesAt (if ([]::string) = [] then prevWord else isWordChar (last [])) keyword (c # cs)"
      by simp
    then show ?thesis by blast
  next
    case False
    with 2 obtain pre rest where
      "cs = pre @ rest"
      "matchesAt (if pre = [] then isWordChar c else isWordChar (last pre)) keyword rest"
      by auto
    then have "c # cs = (c # pre) @ rest \<and>
        matchesAt (if c # pre = [] then prevWord else isWordChar (last (c # pre))) keyword rest"
      by (cases "pre = []") simp_all
    then show ?thesis by blast
  qed
qed

lemma matchesAt_plain:
  assumes "plainKeyword keyword" and "matchesAt p keyword (map lowerChar t)"
  shows "take (length keyword) (map lowerChar t) = keyword"
    and "\<not> p"
    and "drop (length keyword) (map lowerChar t) = [] \<or>
         \<not> isWordChar (hd (drop (length keyword) (map lowerChar t)))"
proof -
  from assms have pk: "keyword \<noteq> []" "isWordChar (hd keyword)" "isWordChar (last keyword)"
    "list_all plainChar keyword"
    by (simp_all add: plainKeyword_def)
  from assms(2) have m: "wordBoundary p (map lowerChar t)"
    "literalIgnoreCase keyword (map lowerChar t)"
    "wordBoundary (lastIsWord p (take (length keyword) (map lowerChar t)))
       (drop (length keyword) (map lowerChar t))"
    by (simp_all add: matchesAt_def)
  show tk: "take (length keyword) (map lowerChar t) = keyword"
    using pk(4) m(2) by (rule literal_plain_lowered)
  from tk pk(1) obtain c cs where t: "map lowerChar t = c # cs" "c = hd keyword"
    by (cases "map lowerChar t"; cases keyword) auto
  with m(1) pk(2) show "\<not> p"
    by (simp add: wordBoundary_def)
  from m(3) tk pk(1,3) show "drop (length keyword) (map lowerChar t) = [] \<or>
         \<not> isWordChar (hd (drop (length keyword) (map lowerChar t)))"
    by (cases "drop (length keyword) (map lowerChar t)")
       (simp_all add: wordBoundary_def lastIsWord_def)
qed

lemma no_word_no_match:
  assumes "plainKeyword keyword" and "\<not> occursAsWord keyword (map lowerChar t)"
  shows "countMatches False keyword (map lowerChar t) = 0"
proof (rule ccontr)
  assume "countMatches False keyword (map lowerChar t) \<noteq> 0"
  then have "0 < countMatches False keyword (map lowerChar t)" by simp
  then obtain pre rest where s: "map lowerChar t = pre @ rest"
    and m: "matchesAt (if pre = [] then False else isWordChar (last pre)) keyword rest"
    using countMatches_positive by blast
  from s obtain t1 t2 where r: "rest = map lowerChar t2" "pre = map lowerChar t1"
    by (metis map_eq_append_conv)
  note f = matchesAt_plain [OF assms(1) m [unfolded r(1)], folded r(1)]
  let ?s = "map lowerChar t" and ?i = "length pre"
  have a: "take (length keyword) (drop ?i ?s) = keyword"
    using f(1) s by simp
  have b: "?i = 0 \<or> \<not> isWordChar (?s ! (?i - 1))"
  proof (cases "pre = []")
    case True
    then show ?thesis by simp
  next
    case False
    with f(2) have "\<not> isWordChar (last pre)" by simp
    moreover from False have "?s ! (?i - 1) = last pre"
      by (simp add: s nth_append last_conv_nth)
    ultimately show ?thesis by simp
  qed
  have c: "length ?s \<le> ?i + length keyword \<or> \<not> isWordChar (?s ! (?i + length keyword))"
  proof (cases "drop (length keyword) rest")
    case Nil
    then show ?thesis using s by simp
  next
    case (Cons d ds)
    with f(3) have "\<not> isWordChar d" by simp
    moreover from Cons have "?s ! (?i + length keyword) = d"
      by (simp add: s nth_append) (metis Cons_nth_drop_Suc drop_eq_Nil2 list.inject list.simps(3) not_le)
    ultimately show ?thesis by simp
  qed
  have "?i \<in> set [0 ..< Suc (length ?s)]"
    using s by simp
  with a b c have "occursAsWord keyword ?s"
    unfolding occursAsWord_def list_ex_iff occursAsWordAt_def by blast
  with assms(2) show False by simp
qed

lemma literalIgnoreCase_self: "literalIgnoreCase keyword (keyword @ post)"
  by (induction keyword) simp_all

lemma matchesAt_word:
  assumes "keyword \<noteq> []" "isWordChar (hd keyword)" "isWordChar (last keyword)"
    and "\<not> p" and "post = [] \<or> \<not> isWordChar (hd post)"
  shows "matchesAt p keyword (keyword @ post)"
proof -
  from assms(1,2,4) have "wordBoundary p (keyword @ post)"
    by (cases keyword) (simp_all add: wordBoundary_def)
  moreover from assms(1,3,5) have
    "wordBoundary (lastIsWord p (take (length keyword) (keyword @ post)))
       (drop (length keyword) (keyword @ post))"
    by (cases post) (simp_all add: wordBoundary_def lastIsWord_def)
  ultimately show ?thesis
    by (simp add: matchesAt_def literalIgnoreCase_self)
qed

lemma word_is_matched:
  assumes "keyword \<noteq> []" "isWordChar (hd keyword)" "isWordChar (last keyword)"
    and "post = [] \<or> \<not> isWordChar (hd post)"
  shows "(if pre = [] then \<not> p else \<not> isWordChar (last pre)) \<Longrightarrow>
         0 < countMatches p keyword (pre @ keyword @ post)"
proof (induction pre arbitrary: p)
  case Nil
  then have "matchesAt p keyword (keyword @ post)"
    using assms by (simp add: matchesAt_word)
  then show ?case
    using assms(1) by (cases keyword) simp_all
next
  case (Cons c pre)
  have "0 < countMatches (isWordChar c) keyword (pre @ keyword @ post)"
    using Cons.prems by (intro Cons.IH) (simp split: if_splits)
  then show ?case by simp
qed

lemma occursAsWord_split:
  assumes "occursAsWord w s"
  shows "\<exists>pre post. s = pre @ w @ post \<and> (pre = [] \<or> \<not> isWordChar (last pre)) \<and>
           (post = [] \<or> \<not> isWordChar (hd post))"
proof -
  from assms obtain i where m: "i \<in> set [0 ..< Suc (length s)]" "occursAsWordAt w s i"
    unfolding occursAsWord_def list_ex_iff by blast
  then have i: "i \<le> length s" "take (length w) (drop i s) = w"
    "i = 0 \<or> \<not> isWordChar (s ! (i - 1))"
    "length s \<le> i + length w \<or> \<not> isWordChar (s ! (i + length w))"
    by (auto simp: occursAsWordAt_def)
  let ?pre = "take i s" and ?post = "drop (length w) (drop i s)"
  have "drop i s = w @ ?post"
    using i(2) by (metis append_take_drop_id)
  then have s: "s = ?pre @ w @ ?post"
    by (metis append_take_drop_id)
  have "?pre = [] \<or> \<not> isWordChar (last ?pre)"
  proof (cases "i = 0")
    case True
    then show ?thesis by simp
  next
    case False
    with i(1) have "take i s \<noteq> []" "length (take i s) = i"
      by auto
    then have "last (take i s) = take i s ! (i - 1)"
      by (simp add: last_conv_nth)
    with False have "last (take i s) = s ! (i - 1)"
      by simp
    with False i(3) show ?thesis by simp
  qed
  moreover have "?post = [] \<or> \<not> isWordChar (hd ?post)"
  proof (cases "length s \<le> i + length w")
    case True
    then show ?thesis by simp
  next
    case False
    then have "hd ?post = s ! (i + length w)"
      by (simp add: hd_drop_conv_nth add.commute)
    with False i(4) show ?thesis by simp
  qed
  ultimately show ?thesis using s by blast
qed

lemma word_boundary_matching:
  assumes "plainKeyword keyword"
  shows "0 < keywordMatchCount (toLowerCase t) keyword \<longleftrightarrow> occursAsWord keyword (toLowerCase t)"
proof
  assume "0 < keywordMatchCount (toLowerCase t) keyword"
  then show "occursAsWord keyword (toLowerCase t)"
    using no_word_no_match [OF assms, of t]
    by (auto simp: keywordMatchCount_def toLowerCase_def)
next
  assume "occursAsWord keyword (toLowerCase t)"
  then obtain pre post where "toLowerCase t = pre @ keyword @ post"
    "pre = [] \<or> \<not> isWordChar (last pre)" "post = [] \<or> \<not> isWordChar (hd post)"
    using occursAsWord_split by blast
  then show "0 < keywordMatchCount (toLowerCase t) keyword"
    using assms word_is_matched [of keyword post pre False]
    by (auto simp: keywordMatchCount_def plainKeyword_def)
qed

lemma negation_plain: "list_all plainKeyword negationKeywords"
  by code_simp

subsection \<open>The scan of a pattern and the places where the keyword stands\<close>

lemma lowerChar_idem: "lowerChar (lowerChar c) = lowerChar c"
  using lowered_range [of c] by (auto simp: lowerChar_def [of "lowerChar c"] Let_def)

lemma literal_exact:
  assumes "list_all plainChar keyword" and "map lowerChar s = s"
  shows "literalIgnoreCase keyword s = (take (length keyword) s = keyword)"
proof
  assume "literalIgnoreCase keyword s"
  then have "literalIgnoreCase keyword (map lowerChar s)"
    by (simp add: assms(2))
  with assms(1) have "take (length keyword) (map lowerChar s) = keyword"
    by (rule literal_plain_lowered)
  then show "take (length keyword) s = keyword"
    by (simp add: assms(2))
next
  assume "take (length keyword) s = keyword"
  then have "s = keyword @ drop (length keyword) s"
    by (metis append_take_drop_id)
  then show "literalIgnoreCase keyword s"
    by (metis literalIgnoreCase_self)
qed

text \<open>At the place where the scan stands, the pattern matches exactly when the keyword stands
  there with a word boundary at both ends.\<close>

lemma standsAt_matchesAt:
  assumes "list_all plainChar keyword" and "map lowerChar s = s"
  shows "standsAt keyword (pre @ s) (length pre) =
         matchesAt (pre \<noteq> [] \<and> isWordChar (last pre)) keyword s"
proof -
  let ?p = "pre \<noteq> [] \<and> isWordChar (last pre)"
  have a: "boundaryBetween pre s = wordBoundary ?p s"
    by (cases s) (simp_all add: boundaryBetween_def wordBoundary_def)
  have b: "boundaryBetween (pre @ take (length keyword) s) (drop (length keyword) s) =
           wordBoundary (lastIsWord ?p (take (length keyword) s)) (drop (length keyword) s)"
    by (cases "drop (length keyword) s")
       (simp_all add: boundaryBetween_def wordBoundary_def lastIsWord_def)
  show ?thesis
    unfolding standsAt_def matchesAt_def literal_exact [OF assms]
    using a b by auto
qed

lemma standsAt_nth:
  assumes "standsAt keyword t i" and "k < length keyword"
  shows "i + k < length t" and "t ! (i + k) = keyword ! k"
proof -
  from assms(1) have tk: "take (length keyword) (drop i t) = keyword"
    by (simp add: standsAt_def)
  from arg_cong [OF tk, of length] have "length keyword \<le> length t - i"
    by simp
  with assms(2) show l: "i + k < length t" by simp
  from tk have "keyword ! k = take (length keyword) (drop i t) ! k" by simp
  also have "\<dots> = t ! (i + k)"
    using assms(2) l by simp
  finally show "t ! (i + k) = keyword ! k" by simp
qed

lemma no_overlap:
  assumes "noSelfOverlap keyword" and "standsAt keyword t i" and "i < j"
    and "j < i + length keyword"
  shows "\<not> standsAt keyword t j"
proof
  assume sj: "standsAt keyword t j"
  let ?d = "j - i"
  from assms(3,4) have d: "0 < ?d" "?d < length keyword" "?d - 1 < length keyword" by simp_all
  from standsAt_nth [OF assms(2) d(2)] assms(3)
  have j: "j < length t" "t ! j = keyword ! ?d" by simp_all
  have j1: "t ! (j - 1) = keyword ! (?d - 1)"
  proof -
    from assms(3) have "i + (?d - 1) = j - 1" by simp
    with standsAt_nth(2) [OF assms(2) d(3)] show ?thesis by simp
  qed
  from d(2) have k: "keyword \<noteq> []" "0 < length keyword" by auto
  from standsAt_nth [OF sj k(2)] have "t ! j = keyword ! 0" by simp
  with k(1) have h: "keyword ! ?d = hd keyword"
    by (simp add: j(2) hd_conv_nth)
  from sj have b: "boundaryBetween (take j t) (drop j t)"
    by (simp add: standsAt_def)
  have tj: "take j t \<noteq> []" "last (take j t) = t ! (j - 1)"
  proof -
    from j(1) assms(3) show ne: "take j t \<noteq> []" by auto
    from j(1) have "length (take j t) = j" by simp
    with ne have "last (take j t) = take j t ! (j - 1)" by (simp add: last_conv_nth)
    with assms(3) show "last (take j t) = t ! (j - 1)" by simp
  qed
  from j(1) have dj: "drop j t \<noteq> []" "hd (drop j t) = t ! j"
    by (simp_all add: hd_drop_conv_nth)
  from b have "isWordChar (t ! (j - 1)) \<noteq> isWordChar (t ! j)"
    unfolding boundaryBetween_def tj(2) dj(2) using tj(1) dj(1) by blast
  then have "isWordChar (keyword ! (?d - 1)) \<noteq> isWordChar (keyword ! ?d)"
    unfolding j(2) j1 .
  moreover from d have "?d \<in> set [1 ..< length keyword]" by simp
  ultimately show False
    using assms(1) h unfolding noSelfOverlap_def list_all_iff by blast
qed


lemma filter_upt_split:
  assumes "i \<le> m" and "m \<le> n"
  shows "filter P [i ..< n] = filter P [i ..< m] @ filter P [m ..< n]"
proof -
  from assms have "[i ..< n] = [i ..< m] @ [m ..< n]"
    by (metis le_Suc_ex upt_add_eq_append)
  then show ?thesis by simp
qed

lemma countMatches_standsAt:
  assumes "list_all plainChar keyword" "noSelfOverlap keyword" "keyword \<noteq> []"
  shows "map lowerChar s = s \<Longrightarrow> p = (pre \<noteq> [] \<and> isWordChar (last pre)) \<Longrightarrow>
         countMatches p keyword s =
           length (filter (standsAt keyword (pre @ s)) [length pre ..< Suc (length (pre @ s))])"
  using assms
proof (induction p keyword s arbitrary: pre rule: countMatches.induct)
  case (1 prevWord keyword)
  have "[length pre ..< Suc (length pre)] = [length pre]" by simp
  with 1 standsAt_matchesAt [of keyword "[]" pre] show ?case
    by simp
next
  case (2 prevWord keyword c cs)
  let ?s = "c # cs" and ?L = "length keyword" and ?i = "length pre"
  let ?n = "length (pre @ c # cs)"
  let ?S = "standsAt keyword (pre @ c # cs)"
  have low: "map lowerChar cs = cs" "lowerChar c = c"
    using 2(3) by simp_all
  have sm: "?S ?i = matchesAt prevWord keyword ?s"
    using standsAt_matchesAt [of keyword ?s pre] 2 by simp
  have first: "[?i ..< Suc ?n] = ?i # [Suc ?i ..< Suc ?n]"
    by (rule upt_conv_Cons) simp
  show ?case
  proof (cases "matchesAt prevWord keyword ?s")
    case False
    have "countMatches (isWordChar c) keyword cs =
        length (filter (standsAt keyword ((pre @ [c]) @ cs))
                  [length (pre @ [c]) ..< Suc (length ((pre @ [c]) @ cs))])"
      using False 2(5,6,7) low by (intro 2(2)) simp_all
    with False sm first show ?thesis by simp
  next
    case True
    then have "literalIgnoreCase keyword ?s" by (simp add: matchesAt_def)
    then have tk: "take ?L ?s = keyword"
      using literal_exact [of keyword ?s] 2(3,5) by simp
    from arg_cong [OF tk, of length] have len: "?L \<le> length ?s" by simp
    from 2(7) have L: "0 < ?L" by simp
    then have ck: "c # take (?L - 1) cs = keyword"
      using tk by (cases ?L) simp_all
    from L have dr: "drop (?L - 1) cs = drop ?L ?s"
      by (cases ?L) simp_all
    have ap: "(pre @ keyword) @ drop ?L ?s = pre @ ?s"
      using tk by (metis append.assoc append_take_drop_id)
    have ih: "countMatches (isWordChar (last (c # take (?L - 1) cs))) keyword (drop (?L - 1) cs) =
        length (filter (standsAt keyword ((pre @ keyword) @ drop (?L - 1) cs))
                  [length (pre @ keyword) ..< Suc (length ((pre @ keyword) @ drop (?L - 1) cs))])"
    proof (intro 2(1) True 2(5,6,7))
      show "map lowerChar (drop (?L - 1) cs) = drop (?L - 1) cs"
        using low by (simp add: drop_map [symmetric])
      show "isWordChar (last (c # take (?L - 1) cs)) =
            (pre @ keyword \<noteq> [] \<and> isWordChar (last (pre @ keyword)))"
        unfolding ck using 2(7) by simp
    qed
    have mid: "filter ?S [Suc ?i ..< ?i + ?L] = []"
    proof -
      from True sm have "?S ?i" by simp
      then have "\<not> ?S j" if "j \<in> set [Suc ?i ..< ?i + ?L]" for j
        using no_overlap [OF 2(6), of "pre @ c # cs" ?i j] that by simp
      then show ?thesis by (simp add: filter_empty_conv)
    qed
    have split: "filter ?S [?i ..< Suc ?n] =
        filter ?S [?i ..< ?i + ?L] @ filter ?S [?i + ?L ..< Suc ?n]"
      using len by (intro filter_upt_split) simp_all
    have front: "filter ?S [?i ..< ?i + ?L] = [?i]"
    proof -
      have "[?i ..< ?i + ?L] = ?i # [Suc ?i ..< ?i + ?L]"
        using L by (intro upt_conv_Cons) simp
      moreover from True sm have "?S ?i" by simp
      ultimately have "filter ?S [?i ..< ?i + ?L] = ?i # filter ?S [Suc ?i ..< ?i + ?L]"
        by simp
      then show ?thesis by (simp only: mid)
    qed
    have rest: "length (filter ?S [?i + ?L ..< Suc ?n]) =
        countMatches (isWordChar (last (c # take (?L - 1) cs))) keyword (drop (?L - 1) cs)"
    proof -
      have "countMatches (isWordChar (last (c # take (?L - 1) cs))) keyword (drop (?L - 1) cs) =
          length (filter (standsAt keyword ((pre @ keyword) @ drop ?L ?s))
                    [length (pre @ keyword) ..< Suc (length ((pre @ keyword) @ drop ?L ?s))])"
        using ih by (simp only: dr)
      also have "\<dots> = length (filter ?S [?i + ?L ..< Suc ?n])"
        by (simp only: ap length_append)
      finally show ?thesis by (rule sym)
    qed
    have "countMatches prevWord keyword ?s =
        1 + countMatches (isWordChar (last (c # take (?L - 1) cs))) keyword (drop (?L - 1) cs)"
      using True by (simp only: countMatches.simps if_True)
    also have "\<dots> = length (filter ?S [?i ..< Suc ?n])"
      unfolding split front rest [symmetric] by simp
    finally show ?thesis .
  qed
qed


lemma table_keywords:
  "list_all (\<lambda>keyword. list_all plainChar keyword \<and> noSelfOverlap keyword \<and> keyword \<noteq> [])
     (hedgingKeywords @ pressureKeywords @ negationKeywords)"
  by code_simp

lemma keywordMatchCount_positions:
  assumes "list_all plainChar keyword" "noSelfOverlap keyword" "keyword \<noteq> []"
  shows "keywordMatchCount (toLowerCase t) keyword = wordBoundaryMatches (toLowerCase t) keyword"
proof -
  have "map lowerChar (toLowerCase t) = toLowerCase t"
    by (simp add: toLowerCase_def lowerChar_idem)
  then show ?thesis
    using countMatches_standsAt [OF assms, of "toLowerCase t" False "[]"]
    by (simp add: keywordMatchCount_def wordBoundaryMatches_def)
qed

lemma hits_matchTotal:
  assumes "set ks \<subseteq> set (hedgingKeywords @ pressureKeywords @ negationKeywords)"
  shows "countKeywordHits (lowerOf raw) ks = matchTotal raw ks"
proof -
  have "keywordMatchCount (toLowerCase (trim raw)) keyword =
        wordBoundaryMatches (toLowerCase (trim raw)) keyword" if "keyword \<in> set ks" for keyword
  proof -
    from that assms table_keywords
    have "list_all plainChar keyword \<and> noSelfOverlap keyword \<and> keyword \<noteq> []"
      unfolding list_all_iff by blast
    then show ?thesis by (intro keywordMatchCount_positions) simp_all
  qed
  then have "map (keywordMatchCount (toLowerCase (trim raw))) ks =
             map (wordBoundaryMatches (toLowerCase (trim raw))) ks"
    by (intro map_cong refl)
  then show ?thesis
    unfolding countKeywordHits_sum matchTotal_def lowerOf_def textOf_def
    by (rule arg_cong)
qed

lemma table_hits:
  "hedgingHits raw = matchTotal raw hedgingKeywords"
  "pressureHits raw = matchTotal raw pressureKeywords"
  "negationHits raw = matchTotal raw negationKeywords"
  unfolding hedgingHits_def pressureHits_def negationHits_def
  by (rule hits_matchTotal, auto)+

lemma densities:
  "hedgingDensity raw = doubleDensity raw hedgingKeywords"
  "pressureDensity raw = doubleDensity raw pressureKeywords"
  "negationDensity raw = doubleDensity raw negationKeywords"
  by (simp_all add: hedgingDensity_def pressureDensity_def negationDensity_def doubleDensity_def
      table_hits words_count)

lemma conflicting_sentences: "isContradiction = conflictingSentence"
  by (rule ext)
     (simp add: isContradiction_def conflictingSentence_def includesStr_sublist Let_def)

lemma contradiction_count: "length (contradictionCandidates raw) = contradictionCount raw"
  by (simp only: contradictionCandidates_def contradictionCount_def conflicting_sentences)

subsection \<open>A repeated keyword\<close>

lemma replicate_repeated:
  "concat (replicate (Suc n) (keyword @ '' '')) = repeated keyword n @ '' ''"
  by (induction n) simp_all

lemma repeated_ends:
  assumes "keyword \<noteq> []"
  shows "repeated keyword n \<noteq> []" and "hd (repeated keyword n) = hd keyword"
    and "last (repeated keyword n) = last keyword"
proof -
  show n: "repeated keyword n \<noteq> []" for n
    using assms by (cases n) simp_all
  show "hd (repeated keyword n) = hd keyword"
    using assms by (cases n) simp_all
  show "last (repeated keyword n) = last keyword"
    using n by (induction n) simp_all
qed

lemma dropWhile_hd: "xs \<noteq> [] \<Longrightarrow> \<not> P (hd xs) \<Longrightarrow> dropWhile P xs = xs"
  by (cases xs) simp_all

lemma space_is_white: "isWhiteSpace CHR '' ''" "\<not> isWordChar CHR '' ''" "lowerChar CHR '' '' = CHR '' ''"
  by (simp_all add: isWhiteSpace_def isWordChar_def lowerChar_def codeUnit_def)

lemma trim_no_space:
  assumes "s \<noteq> []" "\<not> isWhiteSpace (hd s)" "\<not> isWhiteSpace (last s)"
  shows "trim s = s" and "trim (s @ '' '') = s"
proof -
  have a: "dropWhile isWhiteSpace s = s"
    using assms(1,2) by (rule dropWhile_hd)
  have b: "dropWhile isWhiteSpace (rev s) = rev s"
    using assms(1,3) by (intro dropWhile_hd) (simp_all add: hd_rev)
  have c: "dropWhile isWhiteSpace (s @ '' '') = s @ '' ''"
    using assms(1,2) by (intro dropWhile_hd) simp_all
  show "trim s = s"
    unfolding trim_def a b by simp
  show "trim (s @ '' '') = s"
    unfolding trim_def c using b by (simp add: space_is_white)
qed

lemma lower_repeated:
  "map lowerChar keyword = keyword \<Longrightarrow> map lowerChar (repeated keyword n) = repeated keyword n"
  by (induction n) (simp_all add: space_is_white)

lemma token_starts_append:
  "length (filter Q (zip (p # a @ b) (a @ b))) =
   length (filter Q (zip (p # a) a)) + length (filter Q (zip (last (p # a) # b) b))"
  by (induction a arbitrary: p) simp_all

lemma tokenStarts_repeated: "tokenStarts (repeated keyword n) = Suc n * tokenStarts keyword"
proof (induction n)
  case 0
  show ?case by simp
next
  case (Suc n)
  have "tokenStarts (keyword @ CHR '' '' # repeated keyword n) =
        tokenStarts keyword + tokenStarts (repeated keyword n)"
    unfolding tokenStarts_def
      token_starts_append [of _ "CHR '' ''" keyword "CHR '' '' # repeated keyword n"]
    by (simp add: space_is_white)
  with Suc show ?case by simp
qed

lemma countMatches_keyword_first:
  assumes "keyword \<noteq> []" and "matchesAt p keyword (keyword @ post)"
  shows "countMatches p keyword (keyword @ post) =
         Suc (countMatches (isWordChar (last keyword)) keyword post)"
proof -
  from assms(1) obtain c cs where k: "keyword = c # cs" by (cases keyword) auto
  have "countMatches p keyword (c # cs @ post) =
        1 + countMatches (isWordChar (last (c # take (length keyword - 1) (cs @ post)))) keyword
              (drop (length keyword - 1) (cs @ post))"
    using assms(2) by (simp only: countMatches.simps k append_Cons if_True)
  then show ?thesis by (simp add: k)
qed

lemma canonicalize_word_space: "isWordChar k \<Longrightarrow> canonicalize k \<noteq> canonicalize CHR '' ''"
  by (auto simp: isWordChar_def canonicalize_def codeUnit_def Let_def)

lemma count_repeated:
  assumes "keyword \<noteq> []" "isWordChar (hd keyword)" "isWordChar (last keyword)"
  shows "countMatches False keyword (repeated keyword n) = Suc n"
proof (induction n)
  case 0
  have "matchesAt False keyword (keyword @ [])"
    using assms by (intro matchesAt_word) simp_all
  then have "countMatches False keyword (keyword @ []) =
      Suc (countMatches (isWordChar (last keyword)) keyword [])"
    by (rule countMatches_keyword_first [OF assms(1)])
  moreover have "\<not> matchesAt p keyword []" for p
    using assms(1) by (cases keyword) (simp_all add: matchesAt_def)
  ultimately show ?case by simp
next
  case (Suc n)
  let ?R = "repeated keyword n"
  have "matchesAt False keyword (keyword @ CHR '' '' # ?R)"
    using assms by (intro matchesAt_word) (simp_all add: space_is_white)
  then have "countMatches False keyword (keyword @ CHR '' '' # ?R) =
      Suc (countMatches (isWordChar (last keyword)) keyword (CHR '' '' # ?R))"
    by (rule countMatches_keyword_first [OF assms(1)])
  moreover have "\<not> matchesAt p keyword (CHR '' '' # ?R)" for p
    using assms(1,2) canonicalize_word_space [of "hd keyword"]
    by (cases keyword) (simp_all add: matchesAt_def)
  ultimately show ?case
    using Suc by (simp add: space_is_white)
qed

lemma occursAsWord_chars: "occursAsWord w s \<Longrightarrow> set w \<subseteq> set s"
  using occursAsWord_split [of w s] by auto

lemma repeated_chars: "set (repeated keyword n) \<subseteq> set (keyword @ '' '')"
  by (induction n) auto

lemma hedging_plain: "list_all plainKeyword hedgingKeywords"
  by code_simp

text \<open>The hedging keywords: lower case, one or two words, and none of them is written with
  the characters of another one alone.\<close>

lemma hedging_shape:
  "list_all (\<lambda>keyword.
      \<not> isWhiteSpace (hd keyword) \<and> \<not> isWhiteSpace (last keyword) \<and>
      map lowerChar keyword = keyword \<and>
      (tokenStarts keyword = 1 \<or> tokenStarts keyword = 2) \<and>
      list_all (\<lambda>other. other = keyword \<or> \<not> list_all (\<lambda>c. c \<in> set (keyword @ '' '')) other)
        hedgingKeywords) hedgingKeywords"
  by code_simp

lemma count_other_hedging:
  assumes "keyword \<in> set hedgingKeywords" "other \<in> set hedgingKeywords" "other \<noteq> keyword"
  shows "keywordMatchCount (repeated keyword n) other = 0"
proof -
  from assms hedging_shape have "\<not> set other \<subseteq> set (keyword @ '' '')"
    unfolding list_all_iff by blast
  then have "\<not> occursAsWord other (repeated keyword n)"
    using occursAsWord_chars [of other "repeated keyword n"] repeated_chars [of keyword n] by blast
  moreover from assms(2) have "plainKeyword other"
    using hedging_plain by (simp add: list_all_iff)
  moreover from assms(1) hedging_shape have "map lowerChar keyword = keyword"
    unfolding list_all_iff by blast
  ultimately show ?thesis
    using word_boundary_matching [of other "repeated keyword n"]
    by (simp add: toLowerCase_def lower_repeated)
qed

lemma sum_list_single:
  "distinct ks \<Longrightarrow> k \<in> set ks \<Longrightarrow> \<forall>x\<in>set ks. x \<noteq> k \<longrightarrow> f x = (0::nat) \<Longrightarrow>
   sum_list (map f ks) = f k"
proof (induction ks)
  case Nil
  then show ?case by simp
next
  case (Cons a ks)
  show ?case
  proof (cases "a = k")
    case True
    with Cons.prems have "\<forall>x\<in>set ks. f x = 0" by auto
    then have "sum_list (map f ks) = 0" by (simp add: sum_list_eq_0_iff)
    with True show ?thesis by simp
  next
    case False
    with Cons show ?thesis by auto
  qed
qed

lemma hedgingHits_repeated:
  assumes "keyword \<in> set hedgingKeywords"
  shows "countKeywordHits (repeated keyword n) hedgingKeywords = Suc n"
proof -
  from assms hedging_plain have p: "plainKeyword keyword"
    by (simp add: list_all_iff)
  have "distinct hedgingKeywords"
    by (simp add: hedgingKeywords_def)
  then have "sum_list (map (keywordMatchCount (repeated keyword n)) hedgingKeywords) =
      keywordMatchCount (repeated keyword n) keyword"
    using assms count_other_hedging [OF assms, of _ n] by (intro sum_list_single) auto
  also have "\<dots> = Suc n"
    using p by (simp add: keywordMatchCount_def plainKeyword_def count_repeated)
  finally show ?thesis
    by (simp add: countKeywordHits_sum)
qed

lemma hedgingDensity_repeated:
  assumes "keyword \<in> set hedgingKeywords"
  shows "hedgingDensity (concat (replicate n (keyword @ '' ''))) =
         (if n = 0 then 0 else 1 / rat_of_nat (wordCount keyword))"
proof (cases n)
  case 0
  have "hedgingDensity '''' = 0"
    by (simp add: hedgingDensity_def hedgingHits_def lowerOf_def textOf_def trim_Nil
        toLowerCase_def countKeywordHits_Nil double_zero)
  with 0 show ?thesis by simp
next
  case (Suc m)
  from assms hedging_plain have p: "keyword \<noteq> []"
    by (auto simp: list_all_iff plainKeyword_def)
  from assms hedging_shape have k: "\<not> isWhiteSpace (hd keyword)" "\<not> isWhiteSpace (last keyword)"
    "map lowerChar keyword = keyword" "tokenStarts keyword = 1 \<or> tokenStarts keyword = 2"
    unfolding list_all_iff by blast+
  let ?raw = "concat (replicate n (keyword @ '' ''))"
  have t: "trim ?raw = repeated keyword m"
    unfolding Suc replicate_repeated
    using repeated_ends [OF p, of m] k(1,2) by (intro trim_no_space(2)) simp_all
  have l: "lowerOf ?raw = repeated keyword m"
    unfolding lowerOf_def textOf_def t toLowerCase_def using k(3) by (rule lower_repeated)
  have wk: "wordCount keyword = tokenStarts keyword"
    unfolding wordCount_def using trim_no_space(1) [OF p k(1,2)] by simp
  have w: "length (words ?raw) = Suc m * wordCount keyword"
    unfolding words_count wk by (simp add: wordCount_def t tokenStarts_repeated)
  have h: "hedgingHits ?raw = Suc m"
    unfolding hedgingHits_def l using assms by (rule hedgingHits_repeated)
  have q: "rat_of_nat (Suc m) / rat_of_nat (max (Suc m * wordCount keyword) 1) =
           1 / rat_of_nat (wordCount keyword)"
  proof -
    from k(4) wk have "0 < wordCount keyword" by auto
    then have "max (Suc m * wordCount keyword) 1 = Suc m * wordCount keyword"
      by (simp add: max_def)
    then show ?thesis
      by (simp only: of_nat_mult) (simp del: of_nat_Suc)
  qed
  have "hedgingDensity ?raw = double (1 / rat_of_nat (wordCount keyword))"
    unfolding hedgingDensity_def h w q by (rule refl)
  also have "\<dots> = 1 / rat_of_nat (wordCount keyword)"
    using k(4) wk by (auto simp: double_values)
  finally show ?thesis using Suc by simp
qed

lemma hedging_word_count:
  "keyword \<in> set hedgingKeywords \<Longrightarrow> wordCount keyword = 1 \<or> wordCount keyword = 2"
proof -
  have "list_all (\<lambda>keyword. wordCount keyword = 1 \<or> wordCount keyword = 2) hedgingKeywords"
    by code_simp
  then show "keyword \<in> set hedgingKeywords \<Longrightarrow> wordCount keyword = 1 \<or> wordCount keyword = 2"
    by (simp add: list_all_iff)
qed

lemma toFixed1_values: "toFixed1 0 = ''0.0''" "toFixed1 100 = ''100.0''" "toFixed1 50 = ''50.0''"
  by code_simp+

lemma hedging_threshold: "double (35 / 1000) < 1 / 2" "0 \<le> double (35 / 1000)"
  by code_simp+

lemma hedging_first: "cuesOf copy raw ! 0 = hedgingCue copy raw"
  by (simp add: cuesOf_def)

subsection \<open>Ranking of the sentences; sentences as parts of the transcript\<close>

lemma insort_key_map:
  "insort_key g (f x) (map f xs) = map f (insort_key (\<lambda>y. g (f y)) x xs)"
  by (induction xs) simp_all

lemma sort_key_map: "sort_key g (map f xs) = map f (sort_key (\<lambda>y. g (f y)) xs)"
  by (induction xs) (simp_all add: insort_key_map)

lemma highlighted_sorted:
  "highlightedSentences raw =
     take 3 (sort_key (\<lambda>sentence. - int (keywordHits sentence)) (candidates raw))"
proof -
  let ?f = "\<lambda>sentence. (sentence, keywordHits sentence)"
  have "filter (\<lambda>(sentence, hits). hits > 0) (map ?f (sentences raw)) = map ?f (candidates raw)"
    by (simp add: filter_map comp_def candidates_def)
  moreover have "sort_key (\<lambda>(sentence, hits). - int hits) (map ?f (candidates raw)) =
      map ?f (sort_key (\<lambda>sentence. - int (keywordHits sentence)) (candidates raw))"
    by (simp add: sort_key_map)
  ultimately show ?thesis
    by (simp add: highlightedSentences_def take_map comp_def)
qed

lemma keywords_distinct: "distinct (hedgingKeywords @ pressureKeywords)"
  by (simp add: hedgingKeywords_def pressureKeywords_def)

lemma length_filter_card: "distinct xs \<Longrightarrow> length (filter P xs) = card {x \<in> set xs. P x}"
proof -
  assume "distinct xs"
  then have "distinct (filter P xs)" by (rule distinct_filter)
  then have "card (set (filter P xs)) = length (filter P xs)" by (rule distinct_card)
  then show ?thesis by (simp only: set_filter)
qed

lemma keywordHits_card:
  "keywordHits sentence =
     card {keyword \<in> set (hedgingKeywords @ pressureKeywords). sublist keyword (toLowerCase sentence)}"
  unfolding keywordHits_def Let_def includesStr_sublist
  using keywords_distinct by (rule length_filter_card)

lemma trim_sublist: "sublist (trim s) s"
proof -
  have "prefix (rev (dropWhile isWhiteSpace (rev (dropWhile isWhiteSpace s)))) (dropWhile isWhiteSpace s)"
    by (metis suffix_dropWhile suffix_to_prefix rev_rev_ident)
  then have "sublist (trim s) (dropWhile isWhiteSpace s)"
    by (simp add: trim_def)
  moreover have "sublist (dropWhile isWhiteSpace s) s"
    by simp
  ultimately show ?thesis
    by (rule sublist_order.order_trans)
qed

lemma splitSentences_parts:
  "splitSentences b s = w # ws \<Longrightarrow> prefix w s \<and> (\<forall>x\<in>set ws. sublist x s)"
proof (induction b s arbitrary: w ws rule: splitSentences.induct)
  case (1 afterTerminator)
  then show ?case by simp
next
  case (2 afterTerminator c cs)
  show ?case
  proof (cases "afterTerminator \<and> isWhiteSpace c")
    case True
    with 2(3) have w: "w = []" and ws: "ws = splitSentences False (dropWhile isWhiteSpace cs)"
      by simp_all
    have "\<forall>x\<in>set ws. sublist x (dropWhile isWhiteSpace cs)"
    proof (cases ws)
      case Nil
      then show ?thesis by simp
    next
      case (Cons v vs)
      with 2(1) [OF True, of v vs] ws
      have "prefix v (dropWhile isWhiteSpace cs)" "\<forall>x\<in>set vs. sublist x (dropWhile isWhiteSpace cs)"
        by simp_all
      then show ?thesis
        unfolding Cons by (simp add: prefix_imp_sublist)
    qed
    moreover have "sublist (dropWhile isWhiteSpace cs) (c # cs)"
      by (metis sublist_Cons_right sublist_dropWhile)
    ultimately have "\<forall>x\<in>set ws. sublist x (c # cs)"
      using sublist_order.order_trans by blast
    with w show ?thesis by simp
  next
    case False
    show ?thesis
    proof (cases "splitSentences (isTerminator c) cs")
      case Nil
      with False 2(3) show ?thesis by auto
    next
      case (Cons v vs)
      with 2(2) [OF False, of v vs] have "prefix v cs" "\<forall>x\<in>set vs. sublist x cs"
        by simp_all
      moreover from Cons False 2(3) have "w = c # v" "ws = vs"
        by (auto split: if_splits)
      ultimately show ?thesis
        by (auto simp: sublist_Cons_right)
    qed
  qed
qed

lemma splitSentences_sublist: "x \<in> set (splitSentences b s) \<Longrightarrow> sublist x s"
  using splitSentences_parts [of b s] by (cases "splitSentences b s") auto

lemma sentences_verbatim:
  assumes "sentence \<in> set (sentences raw)"
  shows "sublist sentence raw" and "sentence \<noteq> []"
proof -
  from assms obtain x where x: "x \<in> set (splitSentences False (trim raw))" "sentence = trim x"
    and n: "sentence \<noteq> []"
    by (auto simp: sentences_def textOf_def)
  have "sublist (trim x) x" by (rule trim_sublist)
  also have "sublist x (trim raw)" using x(1) by (rule splitSentences_sublist)
  also have "sublist (trim raw) raw" by (rule trim_sublist)
  finally show "sublist sentence raw" by (simp add: x(2))
  show "sentence \<noteq> []" by (rule n)
qed

subsection \<open>Two transcripts on which the rounding of the doubles shows\<close>

lemma short_transcript:
  "wordCount ''maybe maybe maybe maybe maybe truth truth truth truth truth truth a b c d'' = 15"
  "hedgingHits ''maybe maybe maybe maybe maybe truth truth truth truth truth truth a b c d'' = 5"
  "pressureHits ''maybe maybe maybe maybe maybe truth truth truth truth truth truth a b c d'' = 6"
  by code_simp+

lemma long_transcript_words:
  "wordCount ''maybe maybe truth truth truth truth no a a a a a a a a a a a a a a a a a a a a a a a a a a a a a a a a a a a a a a a a a a a a a a a a a'' = 56"
  by code_simp

lemma long_transcript_hedging:
  "hedgingHits ''maybe maybe truth truth truth truth no a a a a a a a a a a a a a a a a a a a a a a a a a a a a a a a a a a a a a a a a a a a a a a a a a'' = 2"
  by code_simp

lemma long_transcript_pressure:
  "pressureHits ''maybe maybe truth truth truth truth no a a a a a a a a a a a a a a a a a a a a a a a a a a a a a a a a a a a a a a a a a a a a a a a a a'' = 4"
  by code_simp

lemma long_transcript_negation:
  "negationHits ''maybe maybe truth truth truth truth no a a a a a a a a a a a a a a a a a a a a a a a a a a a a a a a a a a a a a a a a a a a a a a a a a'' = 1"
  by code_simp

lemma long_transcript_conflicts:
  "contradictionCount ''maybe maybe truth truth truth truth no a a a a a a a a a a a a a a a a a a a a a a a a a a a a a a a a a a a a a a a a a a a a a a a a a'' = 0"
  by code_simp

section \<open>The claims\<close>

subsection \<open>Claim C1\<close>

text \<open>C1 as stated fails. The formulas of the claim are formulas of exact arithmetic; the engine
  evaluates them in doubles, and the rounding of the intermediate results can carry the value
  across a half, so that \<open>Math.round\<close> gives another integer. With 2 hedging, 4 pressure and 1
  negation hit in 56 words the exact base score is \<open>89.5\<close>, the claimed \<open>lieProbability\<close> 90
  and the engine's 89; with 5 hedging and 6 pressure hits in 15 words the exact confidence
  value is \<open>51.5\<close>, the claimed \<open>confidenceScore\<close> 52 and the engine's 51.\<close>

theorem C1_counterexample:
  "claimedLieProbability
     ''maybe maybe truth truth truth truth no a a a a a a a a a a a a a a a a a a a a a a a a a a a a a a a a a a a a a a a a a a a a a a a a a'' = 90 \<and>
   (\<exists>r. analyzeTranscriptFallback enUSFormat
          ''maybe maybe truth truth truth truth no a a a a a a a a a a a a a a a a a a a a a a a a a a a a a a a a a a a a a a a a a a a a a a a a a'' EN = Inr r \<and>
        lieProbability r = 89) \<and>
   claimedConfidenceScore
     ''maybe maybe maybe maybe maybe truth truth truth truth truth truth a b c d'' = 52 \<and>
   (\<exists>r. analyzeTranscriptFallback enUSFormat
          ''maybe maybe maybe maybe maybe truth truth truth truth truth truth a b c d'' EN = Inr r \<and>
        confidenceScore r = 51)"
proof -
  let ?x = "''maybe maybe maybe maybe maybe truth truth truth truth truth truth a b c d''"
  let ?y = "''maybe maybe truth truth truth truth no a a a a a a a a a a a a a a a a a a a a a a a a a a a a a a a a a a a a a a a a a a a a a a a a a''"
  note w = short_transcript(1)
  have m: "matchTotal ?x hedgingKeywords = 5" "matchTotal ?x pressureKeywords = 6"
    using short_transcript(2,3) by (simp_all add: table_hits)
  have "clamp (mathRound (58 + min 1 (15 / 320) * 32 - \<bar>5 / 15 - 6 / 15\<bar> * 120)) 38 94 = 52"
    by code_simp
  then have a: "claimedConfidenceScore ?x = 52"
    by (simp add: claimedConfidenceScore_def keywordDensity_def w m)
  have "max 38 (min 94 (mathRound (double (double (58 + double (min 1 (double (15 / 320)) * 32))
          - double (\<bar>double (double (5 / 15) - double (6 / 15))\<bar> * 120))))) = 51"
    by code_simp
  then have b: "confidenceScoreOf ?x = 51"
    by (simp add: confidenceScoreOf_def coverageFactor_def stabilityPenalty_def densities
        doubleDensity_def words_count w m)
  note v = long_transcript_words
  have n: "matchTotal ?y hedgingKeywords = 2" "matchTotal ?y pressureKeywords = 4"
    "matchTotal ?y negationKeywords = 1"
    using long_transcript_hedging long_transcript_pressure long_transcript_negation
    by (simp_all add: table_hits)
  note k = long_transcript_conflicts
  have "clamp (mathRound (42 + 2 / 56 * 520 + 4 / 56 * 360 + 1 / 56 * 180 + 0 * 4)) 5 96 = 90"
    by code_simp
  then have c: "claimedLieProbability ?y = 90"
    by (simp add: claimedLieProbability_def keywordDensity_def v n k)
  have "min 96 (max 5 (mathRound (double (double (double (double (42 + double (double (2 / 56) * 520))
          + double (double (4 / 56) * 360)) + double (double (1 / 56) * 180)) + double (0 * 4))))) = 89"
    by code_simp
  then have d: "lieProbabilityOf ?y = 89"
    by (simp add: lieProbabilityOf_def baseScore_def densities doubleDensity_def
        contradiction_count v n k)
  from a b c d show ?thesis
    by (simp add: analyze_EN)
qed

text \<open>C1, amended: for every transcript and both locales, the returned \<open>lieProbability\<close> and
  \<open>confidenceScore\<close> are the two clamped, rounded formulas of the claim evaluated in IEEE 754
  double arithmetic, every quotient, product, sum and difference rounded to the nearest double
  in the order of the formula, over the word count of the trimmed text, the three keyword
  densities (total word-boundary match count of the list over \<open>max(wordCount, 1)\<close>) and the
  number of retained conflicting sentences, which is at most 3. Rounding to an integer is
  \<open>Math.round\<close>.\<close>

theorem C1_score_formulas:
  assumes "locale = KO \<or> locale = EN"
  shows "\<exists>r. analyzeTranscriptFallback hostFormat raw locale = Inr r \<and>
     lieProbability r =
       clamp (mathRound
                (double (double (double (double (42 + double (doubleDensity raw hedgingKeywords * 520))
                                           + double (doubleDensity raw pressureKeywords * 360))
                                   + double (doubleDensity raw negationKeywords * 180))
                           + double (rat_of_nat (contradictionCount raw) * 4)))) 5 96 \<and>
     confidenceScore r =
       clamp (mathRound
                (double (double (58 + double (min 1 (double (rat_of_nat (wordCount raw) / 320)) * 32))
                           - double (\<bar>double (doubleDensity raw hedgingKeywords
                                               - doubleDensity raw pressureKeywords)\<bar> * 120))))
         38 94 \<and>
     contradictionCount raw \<le> 3"
proof -
  from assms obtain entry where "fallbackDictionary locale = Some entry"
    using supported_locale by blast
  moreover have "contradictionCount raw \<le> 3"
    by (simp add: contradictionCount_def)
  ultimately show ?thesis
    by (simp add: analyze_supported lieProbabilityOf_def confidenceScoreOf_def baseScore_def
        coverageFactor_def stabilityPenalty_def densities words_count clamp_def
        contradiction_count)
qed

theorem C1_score_formulas_witness:
  "(EN = KO \<or> EN = EN) \<and>
   (\<exists>r. analyzeTranscriptFallback enUSFormat ''I didn't take it, but I did return later.'' EN = Inr r \<and>
        lieProbability r = 66 \<and> confidenceScore r = 59)"
proof -
  let ?x = "''I didn't take it, but I did return later.''"
  have w: "wordCount ?x = 9"
    by code_simp
  have "hedgingHits ?x = 0" "pressureHits ?x = 0" "negationHits ?x = 1"
    by code_simp+
  then have m: "matchTotal ?x hedgingKeywords = 0" "matchTotal ?x pressureKeywords = 0"
    "matchTotal ?x negationKeywords = 1"
    by (simp_all add: table_hits)
  have c: "contradictionCount ?x = 1"
    by code_simp
  have l: "clamp (mathRound
                (double (double (double (double (42 + double (double (0 / 9) * 520))
                                           + double (double (0 / 9) * 360))
                                   + double (double (1 / 9) * 180))
                           + double (1 * 4)))) 5 96 = 66"
    by code_simp
  have k: "clamp (mathRound
                (double (double (58 + double (min 1 (double (9 / 320)) * 32))
                           - double (\<bar>double (double (0 / 9) - double (0 / 9))\<bar> * 120))))
         38 94 = 59"
    by code_simp
  from C1_score_formulas [of EN enUSFormat ?x] l k show ?thesis
    by (simp add: doubleDensity_def w m c)
qed

subsection \<open>Claim C2\<close>

text \<open>C2, as far as the code goes. For the two locales of the type \<open>Locale\<close> the function
  returns a result on every transcript (\<open>analyze_KO\<close>, \<open>analyze_EN\<close>). For a locale that is no
  key of the dictionary the claim asks for the Korean copy; the code takes the Korean copy
  for the cues, the metrics and the summary, and then \<open>synthesizeEvidence\<close> reads
  \<open>fallbackDictionary[locale].evidence\<close> without the fallback: on every transcript the call
  ends in a TypeError.\<close>

theorem C2_unrecognized_locale_raises:
  "analyzeTranscriptFallback hostFormat raw OtherTag = Inl TypeError"
  by (simp add: analyzeTranscriptFallback_def synthesizeEvidence_def fallbackDictionary_def)

subsection \<open>Claim C3\<close>

text \<open>C3: on the empty string and on every transcript of white space only, the English
  analysis has \<open>lieProbability = 42\<close> and exactly one evidence entry, the English placeholder.
  The floor 5 of the clamp is never reached: whatever the transcript and the locale, a returned
  \<open>lieProbability\<close> is at least 42.\<close>

theorem C3_empty_input:
  "((\<forall>c\<in>set raw. isWhiteSpace c) \<longrightarrow>
      (\<exists>r. analyzeTranscriptFallback hostFormat raw EN = Inr r \<and> lieProbability r = 42 \<and>
           evidence r =
             [\<lparr>quote = u ''Not enough material to generate defensible evidence quotes.'',
               rationale = u ''Gather more utterances and rerun the profiler.''\<rparr>])) \<and>
   (\<forall>r. analyzeTranscriptFallback hostFormat other locale = Inr r \<longrightarrow> 42 \<le> lieProbability r)"
proof (intro conjI impI allI)
  assume "\<forall>c\<in>set raw. isWhiteSpace c"
  then have "trim raw = []" by (rule trim_whitespace)
  then have "lieProbabilityOf raw = 42" "highlightedSentences raw = []"
    by (rule empty_text)+
  then show "\<exists>r. analyzeTranscriptFallback hostFormat raw EN = Inr r \<and> lieProbability r = 42 \<and>
           evidence r =
             [\<lparr>quote = u ''Not enough material to generate defensible evidence quotes.'',
               rationale = u ''Gather more utterances and rerun the profiler.''\<rparr>]"
    by (simp add: analyze_EN evidenceOf_def en_placeholder)
next
  fix r
  assume a: "analyzeTranscriptFallback hostFormat other locale = Inr r"
  show "42 \<le> lieProbability r"
  proof (cases "locale")
    case KO
    with a show ?thesis by (auto simp: analyze_KO lieProbability_at_least_42)
  next
    case EN
    with a show ?thesis by (auto simp: analyze_EN lieProbability_at_least_42)
  next
    case OtherTag
    with a show ?thesis
      by (simp add: analyzeTranscriptFallback_def synthesizeEvidence_def fallbackDictionary_def)
  qed
qed

theorem C3_empty_input_witness:
  "(\<exists>r. analyzeTranscriptFallback enUSFormat '''' EN = Inr r \<and> lieProbability r = 42 \<and>
        evidence r =
          [\<lparr>quote = u ''Not enough material to generate defensible evidence quotes.'',
            rationale = u ''Gather more utterances and rerun the profiler.''\<rparr>]) \<and>
   (\<exists>r. analyzeTranscriptFallback enUSFormat [CHR '' '', CHR 0x09, CHR 0x0A] EN = Inr r \<and>
        lieProbability r = 42 \<and>
        evidence r =
          [\<lparr>quote = u ''Not enough material to generate defensible evidence quotes.'',
            rationale = u ''Gather more utterances and rerun the profiler.''\<rparr>]) \<and>
   (\<exists>r. analyzeTranscriptFallback enUSFormat ''maybe'' KO = Inr r \<and> 42 \<le> lieProbability r)"
proof (intro conjI)
  show "\<exists>r. analyzeTranscriptFallback enUSFormat '''' EN = Inr r \<and> lieProbability r = 42 \<and>
        evidence r =
          [\<lparr>quote = u ''Not enough material to generate defensible evidence quotes.'',
            rationale = u ''Gather more utterances and rerun the profiler.''\<rparr>]"
    using C3_empty_input [of "''''" enUSFormat "''''" EN] by simp
  have "\<forall>c\<in>set [CHR '' '', CHR 0x09, CHR 0x0A]. isWhiteSpace c"
    by (simp add: isWhiteSpace_def codeUnit_def)
  with C3_empty_input [of "[CHR '' '', CHR 0x09, CHR 0x0A]" enUSFormat "''''" EN]
  show "\<exists>r. analyzeTranscriptFallback enUSFormat [CHR '' '', CHR 0x09, CHR 0x0A] EN = Inr r \<and>
        lieProbability r = 42 \<and>
        evidence r =
          [\<lparr>quote = u ''Not enough material to generate defensible evidence quotes.'',
            rationale = u ''Gather more utterances and rerun the profiler.''\<rparr>]"
    by blast
  have "\<exists>r. analyzeTranscriptFallback enUSFormat ''maybe'' KO = Inr r"
    by (simp add: analyze_KO)
  with C3_empty_input [of "''''" enUSFormat "''maybe''" KO]
  show "\<exists>r. analyzeTranscriptFallback enUSFormat ''maybe'' KO = Inr r \<and> 42 \<le> lieProbability r"
    by blast
qed

subsection \<open>Claim C4\<close>

text \<open>C4: for every transcript and both locales the analysis returns a result whose
  \<open>lieProbability\<close> lies in 5 .. 96 and whose \<open>confidenceScore\<close> lies in 38 .. 94.\<close>

theorem C4_score_bounds:
  assumes "locale = KO \<or> locale = EN"
  shows "\<exists>r. analyzeTranscriptFallback hostFormat raw locale = Inr r \<and>
             5 \<le> lieProbability r \<and> lieProbability r \<le> 96 \<and>
             38 \<le> confidenceScore r \<and> confidenceScore r \<le> 94"
proof -
  from assms obtain entry where "fallbackDictionary locale = Some entry"
    using supported_locale by blast
  then show ?thesis
    by (simp add: analyze_supported score_bounds)
qed

theorem C4_score_bounds_witness:
  "(EN = KO \<or> EN = EN) \<and>
   (\<exists>r. analyzeTranscriptFallback enUSFormat ''I swear it is the truth. Honestly, trust me!'' EN = Inr r \<and>
        5 \<le> lieProbability r \<and> lieProbability r \<le> 96 \<and>
        38 \<le> confidenceScore r \<and> confidenceScore r \<le> 94)"
  using C4_score_bounds [of EN enUSFormat "''I swear it is the truth. Honestly, trust me!''"] by simp

subsection \<open>Claim C5\<close>

text \<open>C5 as stated fails. The sentence below contains \<open>but\<close> as a standalone word and the
  marker \<open>did\<close>, and the code does not count it: the code looks for the markers \<open>i didn't\<close>
  and \<open>i did\<close>, with the pronoun.\<close>

theorem C5_counterexample:
  "conflictingAsClaimed ''He did it but she left.'' \<and>
   \<not> isContradiction ''He did it but she left.'' \<and>
   contradictionCandidates ''He did it but she left.'' = []"
  by code_simp

text \<open>C5, amended: a sentence is a conflicting clause exactly when its lower-cased text
  contains one of the five contrast conjunctions between two spaces and contains one of the
  substrings \<open>i didn't\<close>, \<open>i did\<close>, \<open>never\<close>, \<open>no\<close>. The retained sentences are the first such
  sentences of the transcript, as many as there are but at most 3. With none retained the result has 3
  cues; otherwise it has a fourth cue whose value is their number and whose risk is Critical
  for more than one and Elevated for one. (The witness is the claim's example: one
  conflicting clause, a fourth cue with value 1 and risk Elevated.)\<close>

theorem C5_conflicting_clauses:
  assumes "locale = KO \<or> locale = EN"
  shows "(isContradiction sentence \<longleftrightarrow>
           (\<exists>joiner\<in>set contradictionJoiners.
               sublist ('' '' @ joiner @ '' '') (toLowerCase sentence)) \<and>
           (\<exists>marker\<in>set [''i didn't'', ''i did'', ''never'', ''no''].
               sublist marker (toLowerCase sentence))) \<and>
         contradictionCandidates raw = take 3 (filter isContradiction (sentences raw)) \<and>
         set (contradictionCandidates raw) \<subseteq> {s \<in> set (sentences raw). isContradiction s} \<and>
         length (contradictionCandidates raw) = min 3 (length (filter isContradiction (sentences raw))) \<and>
         (\<exists>r. analyzeTranscriptFallback hostFormat raw locale = Inr r \<and>
              (contradictionCandidates raw = [] \<longrightarrow> length (cues r) = 3) \<and>
              (contradictionCandidates raw \<noteq> [] \<longrightarrow>
                 length (cues r) = 4 \<and>
                 cue_value (cues r ! 3) = u (showNat (length (contradictionCandidates raw))) \<and>
                 risk (cues r ! 3) =
                   (if length (contradictionCandidates raw) > 1 then Critical else Elevated)))"
proof -
  from assms obtain entry where e: "fallbackDictionary locale = Some entry"
    using supported_locale by blast
  have "set (contradictionCandidates raw) \<subseteq> {s \<in> set (sentences raw). isContradiction s}"
    unfolding contradictionCandidates_def using set_take_subset by fastforce
  moreover have "length (contradictionCandidates raw) = min 3 (length (filter isContradiction (sentences raw)))"
    by (simp add: contradictionCandidates_def min.commute)
  moreover have "contradictionCandidates raw = take 3 (filter isContradiction (sentences raw))"
    by (simp add: contradictionCandidates_def)
  ultimately show ?thesis
    by (simp add: analyze_supported [OF e] cues_length conflict_cue conflictCue_def isContradiction_iff)
qed

theorem C5_conflicting_clauses_witness:
  "(EN = KO \<or> EN = EN) \<and>
   isContradiction ''I didn't take it, but I did return later.'' \<and>
   contradictionCandidates ''I didn't take it, but I did return later.'' =
     [''I didn't take it, but I did return later.''] \<and>
   (\<exists>r. analyzeTranscriptFallback enUSFormat ''I didn't take it, but I did return later.'' EN = Inr r \<and>
        length (cues r) = 4 \<and> cue_value (cues r ! 3) = u ''1'' \<and> risk (cues r ! 3) = Elevated) \<and>
   (\<exists>r. analyzeTranscriptFallback enUSFormat ''He did it but she left.'' EN = Inr r \<and> length (cues r) = 3)"
proof -
  let ?x = "''I didn't take it, but I did return later.''"
  let ?y = "''He did it but she left.''"
  have c: "contradictionCandidates ?x = [?x]"
    by code_simp
  have i: "isContradiction ?x"
    by code_simp
  have n: "showNat 1 = ''1''"
    by code_simp
  have e: "contradictionCandidates ?y = []"
    by code_simp
  from C5_conflicting_clauses [of EN ?x ?x enUSFormat] c n
  have a: "\<exists>r. analyzeTranscriptFallback enUSFormat ?x EN = Inr r \<and>
        length (cues r) = 4 \<and> cue_value (cues r ! 3) = u ''1'' \<and> risk (cues r ! 3) = Elevated"
    by auto
  from C5_conflicting_clauses [of EN ?y ?y enUSFormat] e
  have b: "\<exists>r. analyzeTranscriptFallback enUSFormat ?y EN = Inr r \<and> length (cues r) = 3"
    by auto
  from a b c i show ?thesis
    by simp
qed

subsection \<open>Claim C6\<close>

text \<open>C6 as stated fails. In the transcript below the first sentence has three occurrences of
  a keyword and the second has two, and the code selects the second before the first: it
  scores a sentence by how many of the keywords occur in it, each keyword once.\<close>

theorem C6_counterexample:
  "sentences ''Maybe, maybe, maybe. I guess perhaps.'' =
     [''Maybe, maybe, maybe.'', ''I guess perhaps.''] \<and>
   occurrenceCount ''Maybe, maybe, maybe.'' = 3 \<and>
   occurrenceCount ''I guess perhaps.'' = 2 \<and>
   highlightedSentences ''Maybe, maybe, maybe. I guess perhaps.'' =
     [''I guess perhaps.'', ''Maybe, maybe, maybe.'']"
proof (intro conjI)
  show "sentences ''Maybe, maybe, maybe. I guess perhaps.'' =
     [''Maybe, maybe, maybe.'', ''I guess perhaps.'']"
    by code_simp
  show "occurrenceCount ''Maybe, maybe, maybe.'' = 3"
    by code_simp
  show "occurrenceCount ''I guess perhaps.'' = 2"
    by code_simp
  show "highlightedSentences ''Maybe, maybe, maybe. I guess perhaps.'' =
     [''I guess perhaps.'', ''Maybe, maybe, maybe.'']"
    by code_simp
qed

text \<open>C6, amended: the score of a sentence is the number of keywords of the hedging and pressure
  lists that occur in its lower-cased text as substrings, each keyword counted once however
  often it occurs (no density). The selected sentences are the first 3 of the ranking of the
  sentences with a non-zero score: a rearrangement of them in falling score, the sentences of
  equal score keeping the order of the transcript (a stable sort). Every selected sentence is
  a sentence of the transcript with a non-zero score and a contiguous, verbatim part of the
  raw text; when there is one, the evidence quotes are the selected sentences, in order.\<close>

theorem C6_evidence_selection:
  assumes "locale = KO \<or> locale = EN"
  shows
    "keywordHits sentence =
       card {keyword \<in> set (hedgingKeywords @ pressureKeywords).
               sublist keyword (toLowerCase sentence)} \<and>
     (\<exists>ranked. highlightedSentences raw = take 3 ranked \<and>
        mset ranked = mset (candidates raw) \<and>
        sorted_wrt (\<lambda>a b. keywordHits b \<le> keywordHits a) ranked \<and>
        (\<forall>n. filter (\<lambda>s. keywordHits s = n) ranked =
              filter (\<lambda>s. keywordHits s = n) (candidates raw))) \<and>
     (\<forall>s\<in>set (highlightedSentences raw).
        s \<in> set (sentences raw) \<and> 0 < keywordHits s \<and> sublist s raw) \<and>
     (\<exists>r. analyzeTranscriptFallback hostFormat raw locale = Inr r \<and>
          (highlightedSentences raw \<noteq> [] \<longrightarrow>
             map quote (evidence r) = map u (highlightedSentences raw)))"
proof (intro conjI)
  show "keywordHits sentence =
       card {keyword \<in> set (hedgingKeywords @ pressureKeywords).
               sublist keyword (toLowerCase sentence)}"
    by (rule keywordHits_card)
next
  let ?key = "\<lambda>s. - int (keywordHits s)"
  let ?ranked = "sort_key ?key (candidates raw)"
  have "sorted (map ?key ?ranked)"
    by (rule sorted_sort_key)
  then have "sorted_wrt (\<lambda>a b. keywordHits b \<le> keywordHits a) ?ranked"
    by (simp add: sorted_wrt_map)
  moreover have "filter (\<lambda>s. keywordHits s = n) ?ranked =
      filter (\<lambda>s. keywordHits s = n) (candidates raw)" for n
    using sort_key_stable [of ?key "- int n" "candidates raw"] by simp
  ultimately show "\<exists>ranked. highlightedSentences raw = take 3 ranked \<and>
        mset ranked = mset (candidates raw) \<and>
        sorted_wrt (\<lambda>a b. keywordHits b \<le> keywordHits a) ranked \<and>
        (\<forall>n. filter (\<lambda>s. keywordHits s = n) ranked =
              filter (\<lambda>s. keywordHits s = n) (candidates raw))"
    using highlighted_sorted [of raw] by (intro exI [of _ ?ranked]) simp
next
  show "\<forall>s\<in>set (highlightedSentences raw).
        s \<in> set (sentences raw) \<and> 0 < keywordHits s \<and> sublist s raw"
  proof
    fix s
    assume "s \<in> set (highlightedSentences raw)"
    then have "s \<in> set (sort_key (\<lambda>s. - int (keywordHits s)) (candidates raw))"
      unfolding highlighted_sorted by (rule in_set_takeD)
    then have "s \<in> set (sentences raw)" "0 < keywordHits s"
      by (simp_all add: candidates_def)
    then show "s \<in> set (sentences raw) \<and> 0 < keywordHits s \<and> sublist s raw"
      by (simp add: sentences_verbatim)
  qed
next
  from assms obtain entry where e: "fallbackDictionary locale = Some entry"
    using supported_locale by blast
  show "\<exists>r. analyzeTranscriptFallback hostFormat raw locale = Inr r \<and>
          (highlightedSentences raw \<noteq> [] \<longrightarrow>
             map quote (evidence r) = map u (highlightedSentences raw))"
    by (simp add: analyze_supported [OF e] evidence_quotes)
qed

theorem C6_evidence_selection_witness:
  "(EN = KO \<or> EN = EN) \<and>
   keywordHits ''Maybe, maybe, maybe.'' = 1 \<and>
   card {keyword \<in> set (hedgingKeywords @ pressureKeywords).
           sublist keyword (toLowerCase ''Maybe, maybe, maybe.'')} = 1 \<and>
   sublist ''I guess perhaps.'' ''Maybe, maybe, maybe. I guess perhaps.'' \<and>
   (\<exists>r. analyzeTranscriptFallback enUSFormat ''Maybe, maybe, maybe. I guess perhaps.'' EN = Inr r \<and>
        map quote (evidence r) = [u ''I guess perhaps.'', u ''Maybe, maybe, maybe.''])"
proof -
  let ?t = "''Maybe, maybe, maybe. I guess perhaps.''"
  have h: "highlightedSentences ?t = [''I guess perhaps.'', ''Maybe, maybe, maybe.'']"
    by code_simp
  have k: "keywordHits ''Maybe, maybe, maybe.'' = 1"
    by code_simp
  from C6_evidence_selection [of EN "''Maybe, maybe, maybe.''" ?t enUSFormat] h k show ?thesis
    by auto
qed

subsection \<open>Claim C7\<close>

text \<open>C7: on every transcript the Korean and the English analysis agree on \<open>lieProbability\<close>,
  \<open>confidenceScore\<close>, the values and risks of the cues, the values of the metrics, and the
  numbers of cues, metrics and evidence entries, whose quotes are the same sentences in the
  same order; the summary, the cue labels and details, the metric labels and hints and the
  placeholder evidence come from the copy of the respective locale, and differ between the
  two.\<close>

theorem C7_locale_isolation:
  "\<exists>rk re.
     analyzeTranscriptFallback hostFormat raw KO = Inr rk \<and>
     analyzeTranscriptFallback hostFormat raw EN = Inr re \<and>
     lieProbability rk = lieProbability re \<and> confidenceScore rk = confidenceScore re \<and>
     map cue_value (cues rk) = map cue_value (cues re) \<and>
     map risk (cues rk) = map risk (cues re) \<and>
     map metric_value (metrics rk) = map metric_value (metrics re) \<and>
     length (cues rk) = length (cues re) \<and>
     length (metrics rk) = length (metrics re) \<and>
     length (evidence rk) = length (evidence re) \<and>
     (highlightedSentences raw \<noteq> [] \<longrightarrow>
        map quote (evidence rk) = map u (highlightedSentences raw) \<and>
        map quote (evidence re) = map u (highlightedSentences raw)) \<and>
     summary rk = summaryCopy koCopy (hedgingDensity raw) (pressureDensity raw) (lieProbability rk) \<and>
     summary re = summaryCopy enCopy (hedgingDensity raw) (pressureDensity raw) (lieProbability re) \<and>
     map (\<lambda>c. (cue_label c, detail c)) (cues rk) = take (length (cues rk)) (cueCopy koCopy raw) \<and>
     map (\<lambda>c. (cue_label c, detail c)) (cues re) = take (length (cues re)) (cueCopy enCopy raw) \<and>
     map (\<lambda>m. (metric_label m, hint m)) (metrics rk) = metricCopy koCopy \<and>
     map (\<lambda>m. (metric_label m, hint m)) (metrics re) = metricCopy enCopy \<and>
     (highlightedSentences raw = [] \<longrightarrow>
        evidence rk = [placeholderEvidence koCopy] \<and> evidence re = [placeholderEvidence enCopy]) \<and>
     summary rk \<noteq> summary re \<and>
     map cue_label (cues rk) \<noteq> map cue_label (cues re) \<and>
     map detail (cues rk) \<noteq> map detail (cues re) \<and>
     map metric_label (metrics rk) \<noteq> map metric_label (metrics re) \<and>
     map hint (metrics rk) \<noteq> map hint (metrics re) \<and>
     rationale (placeholderEvidence koCopy) \<noteq> rationale (placeholderEvidence enCopy)"
  unfolding analyze_KO analyze_EN
  apply (intro exI conjI impI)
                      apply (rule refl)
                      apply (rule refl)
  by (simp_all add: cues_locale_free [of koCopy raw enCopy] metrics_locale_free(1) [of hostFormat koCopy raw enCopy] metrics_locale_free(2) evidence_length evidence_quotes
      evidence_placeholder placeholderEvidence_def cues_copy metrics_copy cues_differ metrics_differ
      ko_en_summary_differ ko_en_labels_differ)

theorem C7_locale_isolation_witness:
  "(\<exists>rk re.
      analyzeTranscriptFallback enUSFormat '''' KO = Inr rk \<and>
      analyzeTranscriptFallback enUSFormat '''' EN = Inr re \<and>
      lieProbability rk = lieProbability re \<and> confidenceScore rk = confidenceScore re \<and>
      evidence rk = [placeholderEvidence koCopy] \<and> evidence re = [placeholderEvidence enCopy]) \<and>
   (\<exists>rk re.
      analyzeTranscriptFallback enUSFormat ''Maybe so. Trust me!'' KO = Inr rk \<and>
      analyzeTranscriptFallback enUSFormat ''Maybe so. Trust me!'' EN = Inr re \<and>
      lieProbability rk = lieProbability re \<and> confidenceScore rk = confidenceScore re \<and>
      map cue_value (cues rk) = map cue_value (cues re) \<and>
      map quote (evidence rk) = [u ''Maybe so.'', u ''Trust me!''] \<and>
      map quote (evidence re) = [u ''Maybe so.'', u ''Trust me!''])"
proof (intro conjI)
  have "highlightedSentences '''' = []"
    by (rule empty_text) (rule trim_Nil)
  with C7_locale_isolation [of enUSFormat "''''"]
  show "\<exists>rk re.
      analyzeTranscriptFallback enUSFormat '''' KO = Inr rk \<and>
      analyzeTranscriptFallback enUSFormat '''' EN = Inr re \<and>
      lieProbability rk = lieProbability re \<and> confidenceScore rk = confidenceScore re \<and>
      evidence rk = [placeholderEvidence koCopy] \<and> evidence re = [placeholderEvidence enCopy]"
    by auto
  have "highlightedSentences ''Maybe so. Trust me!'' = [''Maybe so.'', ''Trust me!'']"
    by code_simp
  with C7_locale_isolation [of enUSFormat "''Maybe so. Trust me!''"]
  show "\<exists>rk re.
      analyzeTranscriptFallback enUSFormat ''Maybe so. Trust me!'' KO = Inr rk \<and>
      analyzeTranscriptFallback enUSFormat ''Maybe so. Trust me!'' EN = Inr re \<and>
      lieProbability rk = lieProbability re \<and> confidenceScore rk = confidenceScore re \<and>
      map cue_value (cues rk) = map cue_value (cues re) \<and>
      map quote (evidence rk) = [u ''Maybe so.'', u ''Trust me!''] \<and>
      map quote (evidence re) = [u ''Maybe so.'', u ''Trust me!'']"
    by auto
qed

subsection \<open>Claim C8\<close>

text \<open>C8 as stated fails: one and two repetitions of \<open>maybe\<close> have the same hedging density 1
  (every word is a hit), although two words are far from the 320 words at which the word-count
  normalisation \<open>coverageFactor\<close> saturates. The same holds of a keyword of two words, at the
  density one half.\<close>

theorem C8_counterexample:
  "hedgingDensity (concat (replicate 1 ''maybe '')) = 1 \<and>
   hedgingDensity (concat (replicate 2 ''maybe '')) = 1 \<and>
   coverageFactor (concat (replicate 2 ''maybe '')) < 1 \<and>
   hedgingDensity (concat (replicate 1 ''kind of '')) = 1 / 2 \<and>
   hedgingDensity (concat (replicate 2 ''kind of '')) = 1 / 2 \<and>
   coverageFactor (concat (replicate 2 ''kind of '')) < 1"
proof -
  have m: "''maybe'' \<in> set hedgingKeywords" "''kind of'' \<in> set hedgingKeywords"
    by (simp_all add: hedgingKeywords_def)
  have w: "wordCount ''maybe'' = 1" "wordCount ''kind of'' = 2"
    by code_simp+
  have "length (words (concat (replicate 2 ''maybe ''))) = 2"
    "length (words (concat (replicate 2 ''kind of ''))) = 4"
    by code_simp+
  moreover have "double (2 / 320) < 1" "double (4 / 320) < 1"
    by code_simp+
  ultimately have "coverageFactor (concat (replicate 2 ''maybe '')) < 1"
    "coverageFactor (concat (replicate 2 ''kind of '')) < 1"
    by (simp_all add: coverageFactor_def)
  moreover have "hedgingDensity (concat (replicate 1 (''maybe'' @ '' ''))) = 1"
    "hedgingDensity (concat (replicate 2 (''maybe'' @ '' ''))) = 1"
    "hedgingDensity (concat (replicate 1 (''kind of'' @ '' ''))) = 1 / 2"
    "hedgingDensity (concat (replicate 2 (''kind of'' @ '' ''))) = 1 / 2"
    unfolding hedgingDensity_repeated [OF m(1)] hedgingDensity_repeated [OF m(2)] w
    by simp_all
  ultimately show ?thesis
    by simp
qed

text \<open>C8, amended: for the text that consists of one hedging keyword and a space, repeated \<open>n\<close>
  times, the hedging density is 0 for \<open>n = 0\<close> and, for every \<open>n \<ge> 1\<close>, one over the number of
  words of the keyword, which is 1 or 2: the density 1 (the cue value \<open>100.0%\<close>) for a keyword
  of one word, the density one half (\<open>50.0%\<close>) for a keyword of two words, and the risk
  Elevated. So the density never decreases with \<open>n\<close>, and it increases only from \<open>n = 0\<close> to
  \<open>n = 1\<close>. On every transcript the hedging cue's risk is Elevated exactly when the hedging
  density exceeds the double that the literal \<open>0.035\<close> denotes, Baseline otherwise, and never
  Critical.\<close>

theorem C8_hedging_keyword_repetition:
  assumes "locale = KO \<or> locale = EN" and "keyword \<in> set hedgingKeywords"
  shows "(wordCount keyword = 1 \<or> wordCount keyword = 2) \<and>
    hedgingDensity (concat (replicate n (keyword @ '' ''))) =
      (if n = 0 then 0 else 1 / rat_of_nat (wordCount keyword)) \<and>
    (\<exists>r. analyzeTranscriptFallback hostFormat (concat (replicate n (keyword @ '' ''))) locale =
           Inr r \<and>
         cue_value (cues r ! 0) =
           (if n = 0 then u ''0.0%''
            else if wordCount keyword = 1 then u ''100.0%'' else u ''50.0%'') \<and>
         risk (cues r ! 0) = (if n = 0 then Baseline else Elevated)) \<and>
    (\<exists>r. analyzeTranscriptFallback hostFormat raw locale = Inr r \<and>
         (risk (cues r ! 0) = Elevated \<longleftrightarrow> hedgingDensity raw > double (35 / 1000)) \<and>
         (risk (cues r ! 0) = Baseline \<longleftrightarrow> hedgingDensity raw \<le> double (35 / 1000)) \<and>
         risk (cues r ! 0) \<noteq> Critical)"
proof -
  from assms(1) obtain entry where e: "fallbackDictionary locale = Some entry"
    using supported_locale by blast
  have w: "wordCount keyword = 1 \<or> wordCount keyword = 2"
    using assms(2) hedging_word_count by blast
  have v: "toFixed1 (double 0) = ''0.0''" "toFixed1 (double 100) = ''100.0''"
    "toFixed1 (double 50) = ''50.0''"
    by (simp_all add: double_zero double_values toFixed1_values)
  from w show ?thesis
  proof
    assume "wordCount keyword = 1"
    then show ?thesis
      using hedging_threshold
      by (simp add: analyze_supported [OF e] hedging_first hedgingCue_def
          hedgingDensity_repeated [OF assms(2)] v)
  next
    assume "wordCount keyword = 2"
    then show ?thesis
      using hedging_threshold
      by (simp add: analyze_supported [OF e] hedging_first hedgingCue_def
          hedgingDensity_repeated [OF assms(2)] v)
  qed
qed

theorem C8_hedging_keyword_repetition_witness:
  "(EN = KO \<or> EN = EN) \<and> ''maybe'' \<in> set hedgingKeywords \<and> ''i think'' \<in> set hedgingKeywords \<and>
   hedgingDensity (concat (replicate 50 ''maybe '')) = 1 \<and>
   (\<exists>r. analyzeTranscriptFallback enUSFormat (concat (replicate 50 ''maybe '')) EN = Inr r \<and>
        cue_value (cues r ! 0) = u ''100.0%'' \<and> risk (cues r ! 0) = Elevated) \<and>
   hedgingDensity (concat (replicate 7 ''i think '')) = 1 / 2 \<and>
   (\<exists>r. analyzeTranscriptFallback enUSFormat (concat (replicate 7 ''i think '')) EN = Inr r \<and>
        cue_value (cues r ! 0) = u ''50.0%'' \<and> risk (cues r ! 0) = Elevated) \<and>
   (\<exists>r. analyzeTranscriptFallback enUSFormat ''no hedging here'' EN = Inr r \<and>
        risk (cues r ! 0) = Baseline)"
proof -
  have m: "''maybe'' \<in> set hedgingKeywords" "''i think'' \<in> set hedgingKeywords"
    by (simp_all add: hedgingKeywords_def)
  have w: "wordCount ''maybe'' = 1" "wordCount ''i think'' = 2"
    by code_simp+
  have "hedgingHits ''no hedging here'' = 0"
    by code_simp
  then have h: "hedgingDensity ''no hedging here'' = 0"
    by (simp add: hedgingDensity_def double_zero)
  have t: "0 \<le> double (35 / 1000)"
    by (rule hedging_threshold)
  have a: "''maybe'' @ '' '' = ''maybe ''" "''i think'' @ '' '' = ''i think ''"
    by simp_all
  from C8_hedging_keyword_repetition [of EN "''maybe''" 50 enUSFormat "''no hedging here''"]
    m w h t
  have b: "hedgingDensity (concat (replicate 50 ''maybe '')) = 1 \<and>
     (\<exists>r. analyzeTranscriptFallback enUSFormat (concat (replicate 50 ''maybe '')) EN = Inr r \<and>
        cue_value (cues r ! 0) = u ''100.0%'' \<and> risk (cues r ! 0) = Elevated) \<and>
     (\<exists>r. analyzeTranscriptFallback enUSFormat ''no hedging here'' EN = Inr r \<and>
        risk (cues r ! 0) = Baseline)"
    unfolding a by auto
  from C8_hedging_keyword_repetition [of EN "''i think''" 7 enUSFormat "''no hedging here''"]
    m w
  have c: "hedgingDensity (concat (replicate 7 ''i think '')) = 1 / 2 \<and>
     (\<exists>r. analyzeTranscriptFallback enUSFormat (concat (replicate 7 ''i think '')) EN = Inr r \<and>
        cue_value (cues r ! 0) = u ''50.0%'' \<and> risk (cues r ! 0) = Elevated)"
    unfolding a by auto
  from b c m show ?thesis
    by simp
qed

subsection \<open>Claim C9\<close>

text \<open>C9: matching is by word boundaries. The keyword \<open>not\<close> has a hit in the lower-cased
  text exactly when it stands there as a word of its own, with no word character before or
  behind; so a text such as \<open>notable\<close> gives it no hit. A text in which no negation keyword
  stands as a word has no negation hit and \<open>negationDensity = 0\<close>.\<close>

theorem C9_word_boundary_matching:
  "(0 < keywordMatchCount (lowerOf raw) ''not'' \<longleftrightarrow> occursAsWord ''not'' (lowerOf raw)) \<and>
   ((\<forall>keyword\<in>set negationKeywords. \<not> occursAsWord keyword (lowerOf raw)) \<longrightarrow>
      negationHits raw = 0 \<and> negationDensity raw = 0)"
proof (intro conjI impI)
  have "plainKeyword ''not''"
    using negation_plain by (simp add: negationKeywords_def)
  then show "0 < keywordMatchCount (lowerOf raw) ''not'' \<longleftrightarrow> occursAsWord ''not'' (lowerOf raw)"
    unfolding lowerOf_def by (rule word_boundary_matching)
next
  assume a: "\<forall>keyword\<in>set negationKeywords. \<not> occursAsWord keyword (lowerOf raw)"
  have "keywordMatchCount (lowerOf raw) keyword = 0" if "keyword \<in> set negationKeywords" for keyword
  proof -
    from that have "plainKeyword keyword"
      using negation_plain by (simp add: list_all_iff)
    moreover from that a have "\<not> occursAsWord keyword (lowerOf raw)"
      by blast
    ultimately show ?thesis
      using word_boundary_matching [of keyword "textOf raw"] by (simp add: lowerOf_def)
  qed
  then have "negationHits raw = 0"
    by (simp add: negationHits_def countKeywordHits_sum)
  then show "negationHits raw = 0" "negationDensity raw = 0"
    by (simp_all add: negationDensity_def double_zero)
qed

theorem C9_word_boundary_matching_witness:
  "includesStr (lowerOf ''notable'') ''not'' \<and>
   \<not> occursAsWord ''not'' (lowerOf ''notable'') \<and>
   keywordMatchCount (lowerOf ''notable'') ''not'' = 0 \<and>
   negationHits ''notable'' = 0 \<and> negationDensity ''notable'' = 0 \<and>
   occursAsWord ''not'' (lowerOf ''Notable? Not so.'') \<and>
   0 < keywordMatchCount (lowerOf ''Notable? Not so.'') ''not''"
proof -
  have l: "lowerOf ''notable'' = ''notable''" "lowerOf ''Notable? Not so.'' = ''notable? not so.''"
    by code_simp+
  have i: "includesStr ''notable'' ''not''"
    by code_simp
  have n: "\<forall>keyword\<in>set negationKeywords. \<not> occursAsWord keyword ''notable''"
    by code_simp
  have o: "occursAsWord ''not'' ''notable? not so.''"
    by code_simp
  from n have "\<not> occursAsWord ''not'' ''notable''"
    by (simp add: negationKeywords_def)
  with C9_word_boundary_matching [of "''notable''"] C9_word_boundary_matching [of "''Notable? Not so.''"]
    l i n o show ?thesis
    by simp
qed

subsection \<open>Claim C10\<close>

text \<open>C10, where the code leaves the claim: in the Korean result the first metric has the
  Korean label of the word count, and its value is the number, in the number format of the
  host, followed by the English word \<open>terms\<close>, which is written in the code and in no locale's
  copy. All other text of a result is drawn from the copy of its locale (C7).\<close>

theorem C10_word_count_unit_not_localised:
  "(\<exists>r. analyzeTranscriptFallback hostFormat raw KO = Inr r \<and>
        metric_label (metrics r ! 0) = wordCountLabel (metricsCopy koCopy) \<and>
        metric_value (metrics r ! 0) = hostFormat (wordCount raw) @ u '' terms'') \<and>
   (\<exists>r. analyzeTranscriptFallback enUSFormat ''hello'' KO = Inr r \<and>
        metric_value (metrics r ! 0) = u ''1 terms'')"
proof -
  have "wordCount ''hello'' = 1" by code_simp
  moreover have "enUSFormat 1 = u ''1''" by code_simp
  ultimately show ?thesis
    by (simp add: analyze_KO metricsOf_def words_count u_def)
qed

end
